theory Spec2Isabelle
  imports Complex_Main
begin

section \<open>JavaScript numbers\<close>

text \<open>
  A JavaScript \<^verbatim>\<open>number\<close> is an IEEE-754 binary64 value.  The finite values are kept
  as the rational they denote (\<open>Num 0\<close> is \<open>+0\<close>); the negative zero, the two
  infinities and NaN are constructors of their own.  Every arithmetic result is
  rounded to the nearest binary64 value, ties to even, by \<open>round_double\<close>.
\<close>

datatype number = Num rat | NegZero | PosInf | NegInf | NaN

function bitlen :: "int \<Rightarrow> int" where
  "bitlen n = (if n \<le> 0 then 0 else 1 + bitlen (n div 2))"
  by pat_completeness auto
termination
  by (relation "measure nat") auto

declare bitlen.simps [simp del]

definition floor_log2 :: "rat \<Rightarrow> int" where
  \<comment> \<open>\<open>\<lfloor>log\<^sub>2 a\<rfloor>\<close> for \<open>a > 0\<close>, from the number of bits of \<open>\<lfloor>a\<rfloor>\<close>, or of \<open>\<lceil>1 / a\<rceil> - 1\<close> below 1\<close>
  "floor_log2 a = (if 1 \<le> a then bitlen \<lfloor>a\<rfloor> - 1 else - bitlen (\<lceil>1 / a\<rceil> - 1))"

definition round_half_even :: "rat \<Rightarrow> int" where
  "round_half_even x =
     (let f = \<lfloor>x\<rfloor>; d = x - of_int f
      in if d < 1 / 2 then f
         else if 1 / 2 < d then f + 1
         else if even f then f else f + 1)"

definition round_double :: "rat \<Rightarrow> number" where
  \<comment> \<open>the binary64 value nearest to a non-zero rational: 53 significant bits,
      exponents from \<open>-1022\<close> to \<open>1023\<close>, gradual underflow, overflow to infinity\<close>
  "round_double q =
     (let a = \<bar>q\<bar>;
          e = max (floor_log2 a) (- 1022);
          ulp = 2 powi (e - 52);
          r = of_int (round_half_even (a / ulp)) * ulp
      in if 2 ^ 1024 \<le> r then (if 0 < q then PosInf else NegInf)
         else if r = 0 then (if 0 < q then Num 0 else NegZero)
         else Num (if 0 < q then r else - r))"

definition isNaN :: "number \<Rightarrow> bool" where
  "isNaN x = (x = NaN)"

definition is_inf :: "number \<Rightarrow> bool" where
  "is_inf x = (x = PosInf \<or> x = NegInf)"

definition is_zero :: "number \<Rightarrow> bool" where
  "is_zero x = (x = Num 0 \<or> x = NegZero)"

fun is_neg :: "number \<Rightarrow> bool" where
  "is_neg (Num q) = (q < 0)"
| "is_neg NegZero = True"
| "is_neg NegInf = True"
| "is_neg _ = False"

fun rat_of :: "number \<Rightarrow> rat" where
  "rat_of (Num q) = q"
| "rat_of _ = 0"

definition isFinite :: "number \<Rightarrow> bool" where
  "isFinite x = (\<not> isNaN x \<and> \<not> is_inf x)"

fun js_neg :: "number \<Rightarrow> number" where
  "js_neg (Num q) = (if q = 0 then NegZero else Num (- q))"
| "js_neg NegZero = Num 0"
| "js_neg PosInf = NegInf"
| "js_neg NegInf = PosInf"
| "js_neg NaN = NaN"

definition js_add :: "number \<Rightarrow> number \<Rightarrow> number" where
  "js_add x y =
     (if isNaN x \<or> isNaN y then NaN
      else if is_inf x then (if is_inf y \<and> x \<noteq> y then NaN else x)
      else if is_inf y then y
      else if x = NegZero \<and> y = NegZero then NegZero
      else if rat_of x + rat_of y = 0 then Num 0
      else round_double (rat_of x + rat_of y))"

definition js_sub :: "number \<Rightarrow> number \<Rightarrow> number" where
  "js_sub x y = js_add x (js_neg y)"

definition signed_inf :: "bool \<Rightarrow> number" where
  "signed_inf neg = (if neg then NegInf else PosInf)"

definition signed_zero :: "bool \<Rightarrow> number" where
  "signed_zero neg = (if neg then NegZero else Num 0)"

definition js_mul :: "number \<Rightarrow> number \<Rightarrow> number" where
  "js_mul x y =
     (if isNaN x \<or> isNaN y then NaN
      else if (is_inf x \<and> is_zero y) \<or> (is_zero x \<and> is_inf y) then NaN
      else if is_inf x \<or> is_inf y then signed_inf (is_neg x \<noteq> is_neg y)
      else if is_zero x \<or> is_zero y then signed_zero (is_neg x \<noteq> is_neg y)
      else round_double (rat_of x * rat_of y))"

definition js_div :: "number \<Rightarrow> number \<Rightarrow> number" where
  "js_div x y =
     (if isNaN x \<or> isNaN y then NaN
      else if (is_inf x \<and> is_inf y) \<or> (is_zero x \<and> is_zero y) then NaN
      else if is_inf x \<or> is_zero y then signed_inf (is_neg x \<noteq> is_neg y)
      else if is_inf y \<or> is_zero x then signed_zero (is_neg x \<noteq> is_neg y)
      else round_double (rat_of x / rat_of y))"


section \<open>Characters and strings\<close>

text \<open>
  Source text is ASCII.  \<open>is_space\<close> is the white space that \<^verbatim>\<open>String.prototype.trim\<close>
  and \<^verbatim>\<open>parseFloat\<close> strip (tab, line feed, vertical tab, form feed, carriage
  return, space); \<^verbatim>\<open>ALPHA_REGEX\<close> is \<^verbatim>\<open>/^[a-zA-Z]+$/\<close> and \<^verbatim>\<open>DIGIT_REGEX\<close> is
  \<^verbatim>\<open>/^\d+$/\<close>, both as the \<^verbatim>\<open>test\<close> of a whole string.
\<close>

definition is_space :: "char \<Rightarrow> bool" where
  "is_space c = (c \<in> set [CHR 0x09, CHR 0x0A, CHR 0x0B, CHR 0x0C, CHR 0x0D, CHR '' ''])"

definition is_digit :: "char \<Rightarrow> bool" where
  "is_digit c = (c \<in> set ''0123456789'')"

definition is_alpha :: "char \<Rightarrow> bool" where
  "is_alpha c = (c \<in> set ''abcdefghijklmnopqrstuvwxyzABCDEFGHIJKLMNOPQRSTUVWXYZ'')"

definition ALPHA_REGEX :: "string \<Rightarrow> bool" where
  "ALPHA_REGEX s = (s \<noteq> [] \<and> list_all is_alpha s)"

definition DIGIT_REGEX :: "string \<Rightarrow> bool" where
  "DIGIT_REGEX s = (s \<noteq> [] \<and> list_all is_digit s)"

definition trim :: "string \<Rightarrow> string" where
  "trim s = rev (dropWhile is_space (rev (dropWhile is_space s)))"

fun split_from :: "char \<Rightarrow> string \<Rightarrow> string \<Rightarrow> string list" where
  "split_from sep cur [] = [cur]"
| "split_from sep cur (c # cs) =
     (if c = sep then cur # split_from sep [] cs else split_from sep (cur @ [c]) cs)"

definition split :: "char \<Rightarrow> string \<Rightarrow> string list" where
  \<comment> \<open>\<^verbatim>\<open>s.split(sep)\<close> for a one-character separator: never the empty list\<close>
  "split sep s = split_from sep [] s"

definition digit_val :: "char \<Rightarrow> int" where
  "digit_val c = int (of_char c) - 48"

definition digits_val :: "string \<Rightarrow> int" where
  "digits_val ds = foldl (\<lambda>a c. 10 * a + digit_val c) 0 ds"

subsection \<open>\<^verbatim>\<open>parseFloat\<close>\<close>

text \<open>
  \<^verbatim>\<open>parseFloat\<close> skips leading white space and converts the longest prefix that is a
  \<^verbatim>\<open>StrDecimalLiteral\<close>: an optional sign, then \<^verbatim>\<open>Infinity\<close> or digits with an optional
  fraction (at least one digit on one side of the point) and an optional exponent
  (taken only if it has a digit).  Without such a prefix the result is NaN.
\<close>

definition exponent_part :: "string \<Rightarrow> int" where
  "exponent_part r =
     (case r of
        [] \<Rightarrow> 0
      | c # t \<Rightarrow>
          if c = CHR ''e'' \<or> c = CHR ''E'' then
            (case t of
               [] \<Rightarrow> 0
             | s # u \<Rightarrow>
                 if s = CHR ''+'' \<and> takeWhile is_digit u \<noteq> [] then digits_val (takeWhile is_digit u)
                 else if s = CHR ''-'' \<and> takeWhile is_digit u \<noteq> [] then - digits_val (takeWhile is_digit u)
                 else digits_val (takeWhile is_digit t))
          else 0)"

definition unsigned_part :: "string \<Rightarrow> string" where
  "unsigned_part s =
     (case s of [] \<Rightarrow> [] | c # t \<Rightarrow> if c = CHR ''-'' \<or> c = CHR ''+'' then t else s)"

definition parseFloat :: "string \<Rightarrow> number" where
  "parseFloat src =
     (let s = dropWhile is_space src;
          neg = (take 1 s = ''-'');
          u = unsigned_part s
      in if take 8 u = ''Infinity'' then signed_inf neg
         else
           let ip = takeWhile is_digit u;
               r1 = dropWhile is_digit u;
               point = (take 1 r1 = ''.'');
               fp = (if point then takeWhile is_digit (drop 1 r1) else []);
               r2 = (if point then dropWhile is_digit (drop 1 r1) else r1)
           in if ip = [] \<and> fp = [] then NaN
              else
                let mv = of_int (digits_val (ip @ fp)) * 10 powi (exponent_part r2 - int (length fp))
                in if mv = 0 then signed_zero neg
                   else round_double (if neg then - mv else mv))"

section \<open>Tokens, cell contents, cells, errors\<close>

datatype MathOp = OpAdd | OpSub | OpMul | OpDiv

datatype MathToken = Operator MathOp | Value number | Ref string

type_synonym MathExp = "MathToken list"

text \<open>The second argument of each constructor is the field \<^verbatim>\<open>src\<close>.\<close>

datatype CellContent =
    ValueCell number string
  | IdentifierCell string string
  | ExpressionCell MathExp string

text \<open>
  Cells are JavaScript objects and \<^verbatim>\<open>evalCell\<close> compares them with \<^verbatim>\<open>===\<close>, by
  identity.  \<open>oid\<close> is the identity of the object: \<open>parseCells\<close> numbers the objects it
  creates in the order it creates them.
\<close>

record Cell =
  content :: CellContent
  "identifier" :: string
  oid :: nat

text \<open>The value a token holds at run time: a number, or the string of an operator or a reference.\<close>

datatype jsval = JNum number | JStr string

text \<open>
  Every \<^verbatim>\<open>throw\<close> of the source is one constructor, with the values its message
  interpolates.  \<open>TypeError\<close> is the error of the runtime on reading \<^verbatim>\<open>.value\<close> of
  \<^verbatim>\<open>undefined\<close>.
\<close>

datatype error =
    MalformedExpression string \<comment> \<open>\<^verbatim>\<open>Invalid expression: ${src}\<close>\<close>
  | InvalidNumberLiteral string \<comment> \<open>\<^verbatim>\<open>Invalid number literal: ${numRaw}\<close>\<close>
  | InvalidCellValue string \<comment> \<open>\<^verbatim>\<open>Invalid Cell Value: ${src}\<close>\<close>
  | RaggedGrid \<comment> \<open>\<^verbatim>\<open>Invalid grid!\<close>\<close>
  | HeaderMustBeIdentifiers \<comment> \<open>\<^verbatim>\<open>Only Identifiers allowed in first row\<close>\<close>
  | DuplicateIdentifier \<comment> \<open>\<^verbatim>\<open>Duplicate Identifiers\<close>\<close>
  | IdentifierOutsideHeader \<comment> \<open>\<^verbatim>\<open>Identifiers allowed only in first row\<close>\<close>
  | CannotEvaluateIdentifier string \<comment> \<open>\<^verbatim>\<open>Cannot evaluate identifier: ${value}\<close>\<close>
  | UnresolvedReference string \<comment> \<open>\<^verbatim>\<open>Could not find ref to ${token.value}\<close>\<close>
  | CyclicReference "string list" \<comment> \<open>\<^verbatim>\<open>Cyclic reference: \<close> and the identifiers joined by \<^verbatim>\<open> -> \<close>\<close>
  | ArithmeticError jsval jsval jsval \<comment> \<open>\<^verbatim>\<open>Can't evaluate ${left} ${cells[i].value} ${right}\<close>\<close>
  | InvalidToken jsval \<comment> \<open>\<^verbatim>\<open>Error during execution: Invalid token ${v.value}\<close>\<close>
  | TypeError
  | RefOperand string \<comment> \<open>not an error of the program, see \<open>applyOp\<close>\<close>

section \<open>The tokenizer: \<^verbatim>\<open>parseMathExp\<close>\<close>

text \<open>
  The inner \<^verbatim>\<open>while\<close> loops shift characters off \<^verbatim>\<open>chars\<close> as long as they satisfy
  a test, and put the first other character back.
\<close>

fun scanWhile :: "(char \<Rightarrow> bool) \<Rightarrow> string \<Rightarrow> char list \<Rightarrow> string \<times> char list" where
  "scanWhile p acc [] = (acc, [])"
| "scanWhile p acc (c # cs) = (if p c then scanWhile p (acc @ [c]) cs else (acc, c # cs))"

lemma scanWhile_length: "length (snd (scanWhile p acc cs)) \<le> length cs"
  by (induction cs arbitrary: acc) (auto simp: le_SucI)

lemma scanWhile_snd_length: "(a, rest) = scanWhile p acc cs \<Longrightarrow> length rest < Suc (length cs)"
  using scanWhile_length [of p acc cs] by (metis le_imp_less_Suc snd_conv)

definition opOfChar :: "char \<Rightarrow> MathOp" where
  "opOfChar c =
     (if c = CHR ''+'' then OpAdd else if c = CHR ''-'' then OpSub
      else if c = CHR ''*'' then OpMul else OpDiv)"

function tokenize :: "char list \<Rightarrow> MathToken list \<Rightarrow> error + MathToken list" where
  "tokenize [] tokens = Inr tokens"
| "tokenize (char # chars) tokens =
     (if trim [char] = [] then tokenize chars tokens
      else if char = CHR ''.'' \<or> DIGIT_REGEX [char] \<or> char = CHR ''-'' then
        (case scanWhile (\<lambda>c. c = CHR ''.'' \<or> DIGIT_REGEX [c]) [char] chars of
           (numRaw, rest) \<Rightarrow>
             if numRaw = ''-'' then tokenize rest (tokens @ [Operator OpSub])
             else if isNaN (parseFloat numRaw) then Inl (InvalidNumberLiteral numRaw)
             else tokenize rest (tokens @ [Value (parseFloat numRaw)]))
      else if char = CHR ''+'' \<or> char = CHR ''-'' \<or> char = CHR ''/'' \<or> char = CHR ''*'' then
        tokenize chars (tokens @ [Operator (opOfChar char)])
      else if ALPHA_REGEX [char] then
        (case scanWhile (\<lambda>c. ALPHA_REGEX [c] \<or> DIGIT_REGEX [c]) [char] chars of
           (ref, rest) \<Rightarrow> tokenize rest (tokens @ [Ref ref]))
      else tokenize chars tokens)"
  by pat_completeness auto
termination
  by (relation "measure (\<lambda>(chars, tokens). length chars)")
    (auto simp: scanWhile_snd_length)

definition parseMathExp :: "string \<Rightarrow> error + MathExp" where
  "parseMathExp src =
     (if take 1 src \<noteq> ''='' then Inl (MalformedExpression src)
      else tokenize (drop 1 src) [])"

section \<open>The arithmetic reducer: \<^verbatim>\<open>calcMath\<close>\<close>

fun findIndex :: "('a \<Rightarrow> bool) \<Rightarrow> 'a list \<Rightarrow> nat option" where
  \<comment> \<open>\<open>None\<close> is the \<^verbatim>\<open>-1\<close> of \<^verbatim>\<open>Array.prototype.findIndex\<close>\<close>
  "findIndex p [] = None"
| "findIndex p (x # xs) = (if p x then Some 0 else map_option Suc (findIndex p xs))"

definition splice3 :: "'a list \<Rightarrow> nat \<Rightarrow> 'a \<Rightarrow> 'a list" where
  \<comment> \<open>\<^verbatim>\<open>xs.splice(start, 3, x)\<close>\<close>
  "splice3 xs start x = take start xs @ [x] @ drop (start + 3) xs"

definition opString :: "MathOp \<Rightarrow> string" where
  "opString op = (case op of OpAdd \<Rightarrow> ''+'' | OpSub \<Rightarrow> ''-'' | OpMul \<Rightarrow> ''*'' | OpDiv \<Rightarrow> ''/'')"

fun tokval :: "MathToken \<Rightarrow> jsval" where
  \<comment> \<open>the field \<^verbatim>\<open>value\<close> of a token\<close>
  "tokval (Operator op) = JStr (opString op)"
| "tokval (Value n) = JNum n"
| "tokval (Ref r) = JStr r"

definition isMulDiv :: "MathToken \<Rightarrow> bool" where
  "isMulDiv c = (c = Operator OpMul \<or> c = Operator OpDiv)"

definition isAddSub :: "MathToken \<Rightarrow> bool" where
  "isAddSub c = (c = Operator OpSub \<or> c = Operator OpAdd)"

fun isRef :: "MathToken \<Rightarrow> bool" where
  "isRef (Ref n) = True"
| "isRef _ = False"

text \<open>
  \<^verbatim>\<open>left OP right\<close> on the \<^verbatim>\<open>value\<close> fields of the two neighbours, which the source
  casts to \<^verbatim>\<open>number\<close> without a check.  Between two Value tokens it is the operation on
  numbers.  When a neighbour is an Operator token its value is the operator's string:
  \<^verbatim>\<open>*\<close>, \<^verbatim>\<open>/\<close> and \<^verbatim>\<open>-\<close> convert it to NaN, and \<^verbatim>\<open>+\<close> concatenates to a string that
  begins or ends with an operator character, for which \<^verbatim>\<open>isNaN\<close> is true as well
  (the left neighbour of the leftmost \<^verbatim>\<open>+\<close> or \<^verbatim>\<open>-\<close> is never \<^verbatim>\<open>+\<close> or \<^verbatim>\<open>-\<close>, see
  \<open>findIndex_before\<close>); the model gives NaN in all these cases, and the error raised
  names the operands themselves.

  A Ref token as a neighbour is outside the contract of the reducer, and \<open>evalCell\<close>
  replaces every Ref before it calls \<open>calcMath\<close>.  JavaScript would coerce the name;
  the model does not follow that and returns \<open>RefOperand\<close> instead.
\<close>

fun applyOp :: "(number \<Rightarrow> number \<Rightarrow> number) \<Rightarrow> MathToken \<Rightarrow> MathToken \<Rightarrow> error + number" where
  "applyOp f (Value l) (Value r) = Inr (f l r)"
| "applyOp f (Ref n) _ = Inl (RefOperand n)"
| "applyOp f _ (Ref n) = Inl (RefOperand n)"
| "applyOp f _ _ = Inr NaN"

definition cantEvaluate :: "MathToken list \<Rightarrow> MathToken list \<Rightarrow> nat \<Rightarrow> error" where
  \<comment> \<open>the error thrown when \<^verbatim>\<open>isNaN(v)\<close>; its message reads \<^verbatim>\<open>cells[i]\<close>, not \<^verbatim>\<open>prepared[i]\<close>\<close>
  "cantEvaluate cells prepared i =
     (if i < length cells
      then ArithmeticError (tokval (prepared ! (i - 1))) (tokval (cells ! i)) (tokval (prepared ! (i + 1)))
      else TypeError)"

fun collapseError :: "error \<Rightarrow> bool" where
  \<comment> \<open>the errors that leave a collapse pass\<close>
  "collapseError TypeError = True"
| "collapseError (RefOperand n) = True"
| "collapseError (ArithmeticError a b c) = True"
| "collapseError _ = False"

lemma splice3_length:
  "0 < i \<Longrightarrow> \<not> length xs \<le> Suc i \<Longrightarrow> length (splice3 xs (i - Suc 0) x) < length xs"
  by (auto simp: splice3_def)

function mulDivLoop :: "MathToken list \<Rightarrow> MathToken list \<Rightarrow> error + MathToken list" where
  "mulDivLoop cells prepared =
     (case findIndex isMulDiv prepared of
        None \<Rightarrow> Inr prepared
      | Some i \<Rightarrow>
          if i = 0 \<or> length prepared \<le> i + 1 then Inl TypeError
          else
            (case applyOp (if prepared ! i = Operator OpMul then js_mul else js_div)
                    (prepared ! (i - 1)) (prepared ! (i + 1)) of
               Inl e \<Rightarrow> Inl e
             | Inr v \<Rightarrow>
                 if isNaN v then Inl (cantEvaluate cells prepared i)
                 else mulDivLoop cells (splice3 prepared (i - 1) (Value v))))"
  by pat_completeness auto
termination
  by (relation "measure (\<lambda>(cells, prepared). length prepared)") (auto simp: splice3_length)

function addSubLoop :: "MathToken list \<Rightarrow> MathToken list \<Rightarrow> error + MathToken list" where
  "addSubLoop cells prepared =
     (case findIndex isAddSub prepared of
        None \<Rightarrow> Inr prepared
      | Some i \<Rightarrow>
          if i = 0 \<or> length prepared \<le> i + 1 then Inl TypeError
          else
            (case applyOp (if prepared ! i = Operator OpAdd then js_add else js_sub)
                    (prepared ! (i - 1)) (prepared ! (i + 1)) of
               Inl e \<Rightarrow> Inl e
             | Inr v \<Rightarrow>
                 if isNaN v then Inl (cantEvaluate cells prepared i)
                 else addSubLoop cells (splice3 prepared (i - 1) (Value v))))"
  by pat_completeness auto
termination
  by (relation "measure (\<lambda>(cells, prepared). length prepared)") (auto simp: splice3_length)

declare mulDivLoop.simps [simp del] addSubLoop.simps [simp del]

fun sumValues :: "number \<Rightarrow> MathToken list \<Rightarrow> error + number" where
  \<comment> \<open>the final \<^verbatim>\<open>prepared.reduce(..., 0)\<close>\<close>
  "sumValues acc [] = Inr acc"
| "sumValues acc (Value x # vs) = sumValues (js_add acc x) vs"
| "sumValues acc (v # vs) = Inl (InvalidToken (tokval v))"

definition calcMath :: "MathExp \<Rightarrow> error + number" where
  "calcMath cells =
     (case mulDivLoop cells cells of
        Inl e \<Rightarrow> Inl e
      | Inr prepared \<Rightarrow>
          (case addSubLoop cells prepared of
             Inl e \<Rightarrow> Inl e
           | Inr prepared' \<Rightarrow> sumValues (Num 0) prepared'))"

section \<open>The cell classifier: \<^verbatim>\<open>parseCell\<close>\<close>

definition parseCell :: "string \<Rightarrow> error + CellContent" where
  "parseCell src =
     (if ALPHA_REGEX src then Inr (IdentifierCell src src)
      else if take 1 src = ''='' then
        (case parseMathExp src of Inl e \<Rightarrow> Inl e | Inr toks \<Rightarrow> Inr (ExpressionCell toks src))
      else if \<not> isNaN (parseFloat src) then Inr (ValueCell (parseFloat src) src)
      else Inl (InvalidCellValue src))"

section \<open>The grid parser: \<^verbatim>\<open>parseCells\<close>\<close>

fun isIdentifier :: "CellContent \<Rightarrow> bool" where
  "isIdentifier (IdentifierCell v s) = True"
| "isIdentifier _ = False"

fun identifierValue :: "CellContent \<Rightarrow> string" where
  \<comment> \<open>\<^verbatim>\<open>c.value\<close> of a header cell; the header holds Identifier cells only where this is read\<close>
  "identifierValue (IdentifierCell v s) = v"
| "identifierValue _ = []"

function string_of_nat :: "nat \<Rightarrow> string" where
  \<comment> \<open>the decimal digits \<^verbatim>\<open>${n}\<close> of a row number\<close>
  "string_of_nat n =
     (if n < 10 then [''0123456789'' ! n]
      else string_of_nat (n div 10) @ [''0123456789'' ! (n mod 10)])"
  by pat_completeness auto
termination
  by (relation "measure id") auto

declare string_of_nat.simps [simp del]

fun parseHeader :: "string list \<Rightarrow> error + CellContent list" where
  \<comment> \<open>\<^verbatim>\<open>row.map((src) => parseCell(src))\<close>: the first failure is thrown\<close>
  "parseHeader [] = Inr []"
| "parseHeader (src # srcs) =
     (case parseCell src of
        Inl e \<Rightarrow> Inl e
      | Inr c \<Rightarrow> (case parseHeader srcs of Inl e \<Rightarrow> Inl e | Inr cs \<Rightarrow> Inr (c # cs)))"

fun parseRow :: "CellContent list \<Rightarrow> nat \<Rightarrow> nat \<Rightarrow> string list \<Rightarrow> Cell list \<Rightarrow> error + Cell list" where
  \<comment> \<open>the inner \<^verbatim>\<open>for\<close> loop over row \<open>i\<close> from column \<open>idIndex\<close> on; \<open>cells\<close> are the cells pushed so far\<close>
  "parseRow header i idIndex [] cells = Inr cells"
| "parseRow header i idIndex (cellSrc # rest) cells =
     (case parseCell cellSrc of
        Inl e \<Rightarrow> Inl e
      | Inr cellContent \<Rightarrow>
          if isIdentifier cellContent then Inl IdentifierOutsideHeader
          else parseRow header i (Suc idIndex) rest
                 (cells @ [\<lparr>content = cellContent,
                            identifier = identifierValue (header ! idIndex) @ string_of_nat (i + 1),
                            oid = length cells\<rparr>]))"

fun parseRows :: "CellContent list \<Rightarrow> nat \<Rightarrow> string list list \<Rightarrow> Cell list \<Rightarrow> error + Cell list" where
  "parseRows header i [] cells = Inr cells"
| "parseRows header i (row # rows) cells =
     (case parseRow header i 0 row cells of
        Inl e \<Rightarrow> Inl e
      | Inr cells' \<Rightarrow> parseRows header (Suc i) rows cells')"

definition splitCells :: "string \<Rightarrow> string list list" where
  \<comment> \<open>\<^verbatim>\<open>cellsSrc\<close>: lines, their non-blank fields, no empty rows, every field trimmed\<close>
  "splitCells src =
     map (map trim)
       (filter (\<lambda>c. c \<noteq> [])
          (map (\<lambda>line. filter (\<lambda>field. trim field \<noteq> []) (split CHR '','' line))
             (split CHR 0x0A src)))"

definition parseCells :: "string \<Rightarrow> error + (Cell list \<times> CellContent list)" where
  "parseCells src =
     (case splitCells src of
        [] \<Rightarrow> Inr ([], [])
      | first # rows \<Rightarrow>
          if \<not> list_all (\<lambda>row. length row = length first) (first # rows) then Inl RaggedGrid
          else
            (case parseHeader first of
               Inl e \<Rightarrow> Inl e
             | Inr header \<Rightarrow>
                 if \<not> list_all isIdentifier header then Inl HeaderMustBeIdentifiers
                 else if \<not> distinct (map identifierValue header) then Inl DuplicateIdentifier
                 else
                   (case parseRows header 0 rows [] of
                      Inl e \<Rightarrow> Inl e
                    | Inr cells \<Rightarrow> Inr (cells, header))))"

section \<open>The evaluator: \<^verbatim>\<open>evalCell\<close>\<close>

text \<open>
  \<^verbatim>\<open>refTrace\<close> is a variable of the module: \<open>evalCell\<close> takes its value and returns the
  value it leaves, also when it throws.  The first argument bounds the depth of the
  calls of \<open>evalCell\<close> inside each other; \<open>None\<close> means the depth was not enough.
  \<open>mapTokens\<close> is the \<^verbatim>\<open>map\<close> over the tokens of an Expression cell, on the tokens
  not yet visited.
\<close>

definition cyclicTrace :: "Cell list \<Rightarrow> bool" where
  \<comment> \<open>\<^verbatim>\<open>refTrace.length > 1 && refTrace[0] === refTrace[refTrace.length - 1]\<close>\<close>
  "cyclicTrace refTrace = (length refTrace > 1 \<and> oid (hd refTrace) = oid (last refTrace))"

fun evalCell :: "nat \<Rightarrow> Cell list \<Rightarrow> Cell \<Rightarrow> Cell list \<Rightarrow> ((error + number) \<times> Cell list) option"
  and mapTokens :: "nat \<Rightarrow> Cell list \<Rightarrow> Cell \<Rightarrow> Cell list \<Rightarrow> MathToken list
                     \<Rightarrow> ((error + MathToken list) \<times> Cell list) option" where
  "evalCell 0 refTrace cell cells = None"
| "evalCell (Suc depth) refTrace cell cells =
     (if cyclicTrace refTrace
      then Some (Inl (CyclicReference (map identifier refTrace)), refTrace)
      else
        (case content cell of
           IdentifierCell v s \<Rightarrow> Some (Inl (CannotEvaluateIdentifier v), refTrace)
         | ValueCell v s \<Rightarrow> Some (Inr v, refTrace)
         | ExpressionCell toks s \<Rightarrow>
             (case mapTokens depth refTrace cell cells toks of
                None \<Rightarrow> None
              | Some (Inl e, refTrace') \<Rightarrow> Some (Inl e, refTrace')
              | Some (Inr prepared, refTrace') \<Rightarrow> Some (calcMath prepared, refTrace'))))"
| "mapTokens depth refTrace cell cells [] = Some (Inr [], refTrace)"
| "mapTokens depth refTrace cell cells (token # rest) =
     (case token of
        Ref name \<Rightarrow>
          (let refTrace1 = (if refTrace = [] then [cell] else refTrace)
           in case find (\<lambda>c. identifier c = name) cells of
                None \<Rightarrow> Some (Inl (UnresolvedReference name), refTrace1)
              | Some targetCell \<Rightarrow>
                  (case evalCell depth (refTrace1 @ [targetCell]) targetCell cells of
                     None \<Rightarrow> None
                   | Some (Inl e, refTrace2) \<Rightarrow> Some (Inl e, refTrace2)
                   | Some (Inr v, refTrace2) \<Rightarrow>
                       (case mapTokens depth [] cell cells rest of
                          None \<Rightarrow> None
                        | Some (Inl e, refTrace3) \<Rightarrow> Some (Inl e, refTrace3)
                        | Some (Inr prepared, refTrace3) \<Rightarrow> Some (Inr (Value v # prepared), refTrace3))))
      | _ \<Rightarrow>
          (case mapTokens depth refTrace cell cells rest of
             None \<Rightarrow> None
           | Some (Inl e, refTrace') \<Rightarrow> Some (Inl e, refTrace')
           | Some (Inr prepared, refTrace') \<Rightarrow> Some (Inr (token # prepared), refTrace')))"

section \<open>The number model\<close>

lemma floor_rat_numeral: "\<lfloor>numeral a / numeral b :: rat\<rfloor> = numeral a div numeral b"
  using floor_divide_of_int_eq [of "numeral a" "numeral b", where ?'a = rat] by simp

lemma ceiling_rat_numeral: "\<lceil>numeral a / numeral b :: rat\<rceil> = - (- numeral a div numeral b)"
  using floor_divide_of_int_eq [of "- numeral a" "numeral b", where ?'a = rat]
  by (simp add: ceiling_def)

lemma bitlen_numeral:
  "bitlen 0 = 0" "bitlen 1 = 1" "bitlen (numeral k) = 1 + bitlen (numeral k div 2)"
  "bitlen (- numeral k) = 0"
  by (subst bitlen.simps, simp add: bitlen.simps)+

text \<open>
  \<open>floor_log2\<close> is the binary exponent of a positive rational, and rounding is exact
  on the integers of up to 53 bits.
\<close>

lemma bitlen_nonneg: "0 \<le> bitlen n"
  by (induction n rule: bitlen.induct) (subst bitlen.simps, auto)

lemma bitlen_pos: "0 < n \<Longrightarrow> 1 \<le> bitlen n"
  by (subst bitlen.simps) (simp add: bitlen_nonneg)

lemma bitlen_bounds: "0 < n \<Longrightarrow> 2 ^ nat (bitlen n - 1) \<le> n \<and> n < 2 ^ nat (bitlen n)"
proof (induction n rule: bitlen.induct)
  case (1 n)
  show ?case
  proof (cases "n div 2 = 0")
    case True
    with "1.prems" have "n = 1" by presburger
    then show ?thesis
      by (simp add: bitlen_numeral)
  next
    case False
    with "1.prems" have pos: "0 < n div 2" by presburger
    from "1.IH" [OF _ pos] "1.prems"
    have ih: "2 ^ nat (bitlen (n div 2) - 1) \<le> n div 2" "n div 2 < 2 ^ nat (bitlen (n div 2))"
      by auto
    have b: "bitlen n = 1 + bitlen (n div 2)"
      using "1.prems" by (subst bitlen.simps) simp
    have one: "1 \<le> bitlen (n div 2)"
      using pos by (rule bitlen_pos)
    have "nat (bitlen n - 1) = Suc (nat (bitlen (n div 2) - 1))" "nat (bitlen n) = Suc (nat (bitlen (n div 2)))"
      using b one by auto
    moreover have "2 * (n div 2) \<le> n" "n < 2 * (n div 2 + 1)"
      by presburger+
    ultimately show ?thesis
      using ih by auto
  qed
qed

lemma floor_log2_bounds:
  assumes "0 < a"
  shows "2 powi floor_log2 a \<le> a \<and> a < 2 powi (floor_log2 a + 1)"
proof (cases "1 \<le> a")
  case True
  define n where "n = \<lfloor>a\<rfloor>"
  have n: "1 \<le> n" "of_int n \<le> a" "a < of_int n + 1"
    using True floor_correct [of a] by (auto simp: n_def le_floor_iff)
  from n(1) have b: "1 \<le> bitlen n" "2 ^ nat (bitlen n - 1) \<le> n" "n < 2 ^ nat (bitlen n)"
    using bitlen_pos [of n] bitlen_bounds [of n] by auto
  have fl: "floor_log2 a = bitlen n - 1"
    using True by (simp add: floor_log2_def n_def)
  have "(2::rat) powi (bitlen n - 1) = of_int (2 ^ nat (bitlen n - 1))"
    using b(1) by (simp add: power_int_def)
  also have "\<dots> \<le> of_int n"
    using b(2) by (simp only: of_int_le_iff)
  finally have lower: "2 powi (bitlen n - 1) \<le> a"
    using n(2) by simp
  have "n + 1 \<le> 2 ^ nat (bitlen n)"
    using b(3) by simp
  then have "(of_int (n + 1) :: rat) \<le> of_int (2 ^ nat (bitlen n))"
    by (simp only: of_int_le_iff)
  moreover have "(2::rat) powi (bitlen n) = of_int (2 ^ nat (bitlen n))"
    using b(1) by (simp add: power_int_def)
  ultimately have "a < 2 powi (bitlen n)"
    using n(3) by simp
  with lower fl show ?thesis by simp
next
  case False
  define y where "y = 1 / a"
  define m where "m = \<lceil>y\<rceil> - 1"
  have y: "1 < y" "a = 1 / y"
    using False assms by (auto simp: y_def)
  have m: "1 \<le> m" "of_int m < y" "y \<le> of_int m + 1"
    using y(1) ceiling_correct [of y] by (auto simp: m_def less_ceiling_iff)
  from m(1) have b: "1 \<le> bitlen m" "2 ^ nat (bitlen m - 1) \<le> m" "m < 2 ^ nat (bitlen m)"
    using bitlen_pos [of m] bitlen_bounds [of m] by auto
  have fl: "floor_log2 a = - bitlen m"
    using False by (simp add: floor_log2_def m_def y_def)
  have "m + 1 \<le> 2 ^ nat (bitlen m)"
    using b(3) by simp
  then have "(of_int (m + 1) :: rat) \<le> of_int (2 ^ nat (bitlen m))"
    by (simp only: of_int_le_iff)
  then have "of_int m + 1 \<le> (2::rat) ^ nat (bitlen m)"
    by simp
  with m(3) have up: "y \<le> (2::rat) ^ nat (bitlen m)"
    by (rule order.trans)
  have "(of_int (2 ^ nat (bitlen m - 1)) :: rat) \<le> of_int m"
    using b(2) by (simp only: of_int_le_iff)
  then have "(2::rat) ^ nat (bitlen m - 1) \<le> of_int m"
    by simp
  then have low: "(2::rat) ^ nat (bitlen m - 1) < y"
    using m(2) by (rule order.strict_trans1)
  have p1: "(2::rat) powi (- bitlen m) = 1 / 2 ^ nat (bitlen m)"
    using b(1) by (simp add: power_int_def field_simps)
  have p2: "(2::rat) powi (- bitlen m + 1) = 1 / 2 ^ nat (bitlen m - 1)"
  proof -
    have "- bitlen m + 1 = - (bitlen m - 1)" by simp
    moreover have "(2::rat) powi (- (bitlen m - 1)) = 1 / 2 ^ nat (bitlen m - 1)"
      using b(1) by (simp add: power_int_def field_simps)
    ultimately show ?thesis by simp
  qed
  have "1 / 2 ^ nat (bitlen m) \<le> 1 / y"
    using up y(1) by (simp add: frac_le)
  moreover have "1 / y < 1 / 2 ^ nat (bitlen m - 1)"
    using low by (simp add: frac_less2)
  ultimately show ?thesis
    using fl p1 p2 y(2) by simp
qed

lemma round_half_even_of_int: "round_half_even (of_int k) = k"
  by (simp add: round_half_even_def)

lemma round_double_of_int:
  assumes "n \<noteq> 0" "\<bar>n\<bar> \<le> 2 ^ 53"
  shows "round_double (of_int n) = Num (of_int n)"
proof -
  define a :: rat where "a = \<bar>of_int n\<bar>"
  define e where "e = floor_log2 a"
  have a1: "a = of_int \<bar>n\<bar>"
    by (simp add: a_def)
  have "(of_int 1 :: rat) \<le> of_int \<bar>n\<bar>"
    using assms(1) by (simp only: of_int_le_iff)
  then have a2: "1 \<le> a"
    by (simp add: a1)
  have "(of_int \<bar>n\<bar> :: rat) \<le> of_int (2 ^ 53)"
    using assms(2) by (simp only: of_int_le_iff)
  then have a3: "a \<le> 2 ^ 53"
    by (simp add: a1)
  note a = a1 a2 a3
  have bounds: "2 powi e \<le> a" "a < 2 powi (e + 1)"
    using floor_log2_bounds [of a] a(2) by (auto simp: e_def)
  have e0: "0 \<le> e"
  proof (rule ccontr)
    assume "\<not> 0 \<le> e"
    then have "e + 1 \<le> 0" by simp
    then have "(2::rat) powi (e + 1) \<le> 2 powi 0"
      by (intro power_int_increasing) auto
    with bounds(2) a(2) show False by simp
  qed
  have e53: "e \<le> 53"
  proof (rule ccontr)
    assume "\<not> e \<le> 53"
    then have "54 \<le> e" by simp
    then have "(2::rat) powi 54 \<le> 2 powi e"
      by (intro power_int_increasing) auto
    with bounds(1) a(3) show False by (simp add: power_int_def)
  qed
  obtain k :: int where k: "a / 2 powi (e - 52) = of_int k"
  proof (cases "e = 53")
    case True
    with bounds(1) a(3) have "a = 2 ^ 53"
      by (simp add: power_int_def)
    with True have "a / 2 powi (e - 52) = of_int (2 ^ 52)"
      by simp
    then show ?thesis by (rule that)
  next
    case False
    with e53 have le: "e \<le> 52" by simp
    have "(2::rat) powi (e - 52) = 1 / 2 ^ nat (52 - e)"
    proof -
      have "e - 52 = - (52 - e)" by simp
      moreover have "(2::rat) powi (- (52 - e)) = 1 / 2 ^ nat (52 - e)"
        using le by (simp add: power_int_def field_simps)
      ultimately show ?thesis by simp
    qed
    then have "a / 2 powi (e - 52) = of_int (\<bar>n\<bar> * 2 ^ nat (52 - e))"
      by (simp add: a(1))
    then show ?thesis by (rule that)
  qed
  have ulp: "(2::rat) powi (e - 52) \<noteq> 0" "0 < (2::rat) powi (e - 52)"
    by simp_all
  have "round_half_even (a / 2 powi (e - 52)) = k"
    by (simp only: k round_half_even_of_int)
  then have "of_int (round_half_even (a / 2 powi (e - 52))) * 2 powi (e - 52)
      = a / 2 powi (e - 52) * 2 powi (e - 52)"
    by (simp only: k)
  then have r: "of_int (round_half_even (a / 2 powi (e - 52))) * 2 powi (e - 52) = a"
    using ulp(1) by simp
  have lt: "a < 2 ^ 1024"
    using a(3) by (rule order.strict_trans1) simp
  have "round_double (of_int n) = Num (if 0 < (of_int n :: rat) then a else - a)"
    using e0 r lt a(2)
    by (simp add: round_double_def Let_def max_def flip: a_def e_def)
  then show ?thesis
    using assms(1) by (auto simp: a_def)
qed

lemma round_double_not_NaN: "\<not> isNaN (round_double q)"
  by (simp add: round_double_def isNaN_def Let_def)

section \<open>Evaluation on concrete inputs\<close>

lemmas char_simps =
  is_digit_def is_space_def is_alpha_def ALPHA_REGEX_def DIGIT_REGEX_def trim_def opOfChar_def

lemmas round_simps =
  round_double_def floor_log2_def bitlen_numeral round_half_even_def Let_def
  floor_rat_numeral ceiling_rat_numeral

lemmas parseFloat_simps =
  parseFloat_def unsigned_part_def exponent_part_def digits_val_def digit_val_def
  signed_inf_def signed_zero_def

lemmas arith_simps =
  js_add_def js_sub_def js_mul_def js_div_def isNaN_def is_inf_def is_zero_def
  signed_inf_def signed_zero_def

lemmas calc_simps =
  calcMath_def mulDivLoop.simps addSubLoop.simps isMulDiv_def isAddSub_def splice3_def
  cantEvaluate_def opString_def

lemma parseFloat_0: "parseFloat ''0'' = Num 0"
  by (simp add: parseFloat_simps char_simps)

lemma parseFloat_1: "parseFloat ''1'' = Num 1"
  by (simp add: parseFloat_simps char_simps round_simps)

lemma parseFloat_2: "parseFloat ''2'' = Num 2"
  by (simp add: parseFloat_simps char_simps round_simps)

lemma parseFloat_3: "parseFloat ''3'' = Num 3"
  by (simp add: parseFloat_simps char_simps round_simps)

lemma parseFloat_10: "parseFloat ''10'' = Num 10"
  by (simp add: parseFloat_simps char_simps round_simps)

lemma parseFloat_minus_2: "parseFloat ''-2'' = Num (- 2)"
  by (simp add: parseFloat_simps char_simps round_simps)

lemma parseFloat_minus_3: "parseFloat ''-3'' = Num (- 3)"
  by (simp add: parseFloat_simps char_simps round_simps)

text \<open>
  The number model on values whose binary64 results are well known: \<^verbatim>\<open>0.1\<close> is not
  a binary fraction; \<^verbatim>\<open>0.1 + 0.2\<close> is not \<^verbatim>\<open>0.3\<close>; \<open>2\<^sup>5\<^sup>3 + 1\<close> is a tie and rounds to
  the even neighbour; \<^verbatim>\<open>-0\<close> keeps its sign, which a division shows.
\<close>

lemma parseFloat_tenth: "parseFloat ''0.1'' = Num (3602879701896397 / 36028797018963968)"
  by (simp add: parseFloat_simps char_simps round_simps)

lemma tenth_plus_fifth:
  "js_add (parseFloat ''0.1'') (parseFloat ''0.2'') = Num (5404319552844596 / 18014398509481984)
   \<and> parseFloat ''0.3'' = Num (5404319552844595 / 18014398509481984)"
  by (simp add: parseFloat_simps char_simps round_simps arith_simps)

lemma round_double_tie: "round_double (2 ^ 53 + 1) = Num (2 ^ 53)"
  by (simp add: round_simps)

lemma negative_zero: "parseFloat ''-0'' = NegZero \<and> js_div (Num 1) (parseFloat ''-0'') = NegInf"
  by (simp add: parseFloat_simps char_simps arith_simps)

section \<open>The reducer on sequences without operators\<close>

lemma findIndex_None: "list_all (\<lambda>x. \<not> p x) xs \<Longrightarrow> findIndex p xs = None"
  by (induction xs) auto

lemma mulDivLoop_no_op:
  "list_all (\<lambda>x. \<not> isMulDiv x) prepared \<Longrightarrow> mulDivLoop cells prepared = Inr prepared"
  by (subst mulDivLoop.simps) (simp add: findIndex_None)

lemma addSubLoop_no_op:
  "list_all (\<lambda>x. \<not> isAddSub x) prepared \<Longrightarrow> addSubLoop cells prepared = Inr prepared"
  by (subst addSubLoop.simps) (simp add: findIndex_None)

lemma sumValues_values: "sumValues acc (map Value xs) = Inr (foldl js_add acc xs)"
  by (induction xs arbitrary: acc) auto

lemma values_no_op:
  "list_all (\<lambda>x. \<not> isMulDiv x) (map Value xs)" "list_all (\<lambda>x. \<not> isAddSub x) (map Value xs)"
  by (induction xs) (auto simp: isMulDiv_def isAddSub_def)

text \<open>
  C2.  Tokenizing \<^verbatim>\<open>=1+2*3\<close> gives Value 1, Operator +, Value 2, Operator *, Value 3,
  and the reducer turns that sequence into 7: the multiplication is collapsed first.
  Tokenizing \<^verbatim>\<open>=10-2-3\<close> and reducing the result gives 5 (the tokenizer reads each
  \<^verbatim>\<open>-\<close> that a digit follows as the sign of a literal, so the sequence is
  Value 10, Value -2, Value -3, which the reducer sums).  With the two subtractions as
  Operator tokens, as the tokenizer gives them for \<^verbatim>\<open>=10 - 2 - 3\<close>, the reducer
  collapses the left one first and returns 5 as well.
\<close>

theorem precedence_examples:
  "parseMathExp ''=1+2*3''
     = Inr [Value (Num 1), Operator OpAdd, Value (Num 2), Operator OpMul, Value (Num 3)]
   \<and> calcMath [Value (Num 1), Operator OpAdd, Value (Num 2), Operator OpMul, Value (Num 3)]
     = Inr (Num 7)
   \<and> parseMathExp ''=10-2-3'' = Inr [Value (Num 10), Value (Num (- 2)), Value (Num (- 3))]
   \<and> calcMath [Value (Num 10), Value (Num (- 2)), Value (Num (- 3))] = Inr (Num 5)
   \<and> calcMath [Value (Num 10), Operator OpSub, Value (Num 2), Operator OpSub, Value (Num 3)]
     = Inr (Num 5)"
proof -
  have "parseMathExp ''=1+2*3''
      = Inr [Value (Num 1), Operator OpAdd, Value (Num 2), Operator OpMul, Value (Num 3)]"
    by (simp add: parseMathExp_def char_simps isNaN_def parseFloat_1 parseFloat_2 parseFloat_3)
  moreover have "calcMath [Value (Num 1), Operator OpAdd, Value (Num 2), Operator OpMul, Value (Num 3)]
      = Inr (Num 7)"
    by (simp add: calc_simps arith_simps round_simps)
  moreover have "parseMathExp ''=10-2-3'' = Inr [Value (Num 10), Value (Num (- 2)), Value (Num (- 3))]"
    by (simp add: parseMathExp_def char_simps isNaN_def parseFloat_10 parseFloat_minus_2
        parseFloat_minus_3)
  moreover have "calcMath [Value (Num 10), Value (Num (- 2)), Value (Num (- 3))] = Inr (Num 5)"
    by (simp add: calc_simps arith_simps round_simps)
  moreover have "calcMath [Value (Num 10), Operator OpSub, Value (Num 2), Operator OpSub, Value (Num 3)]
      = Inr (Num 5)"
    by (simp add: calc_simps arith_simps round_simps)
  ultimately show ?thesis by simp
qed

text \<open>
  C9.  On a sequence of Value tokens only, the reducer returns the sum of the values,
  added from the left to 0: both collapse passes find no operator, and the final fold
  adds every value.  Adjacent values are summed, not rejected, and the empty sequence,
  which is the tokenization of \<^verbatim>\<open>=\<close>, reduces to 0.
\<close>

theorem calcMath_values_sum:
  "calcMath (map Value xs) = Inr (foldl js_add (Num 0) xs)
   \<and> parseMathExp ''='' = Inr []
   \<and> calcMath [] = Inr (Num 0)
   \<and> calcMath [Value (Num 1), Value (Num 2), Value (Num 3)] = Inr (Num 6)"
proof -
  have sum: "calcMath (map Value ys) = Inr (foldl js_add (Num 0) ys)" for ys
    by (simp add: calcMath_def mulDivLoop_no_op addSubLoop_no_op values_no_op sumValues_values)
  have "calcMath [Value (Num 1), Value (Num 2), Value (Num 3)] = Inr (Num 6)"
    using sum [of "[Num 1, Num 2, Num 3]"] by (simp add: arith_simps round_simps)
  moreover have "calcMath [] = Inr (Num 0)"
    using sum [of "[]"] by simp
  moreover have "parseMathExp ''='' = Inr []"
    by (simp add: parseMathExp_def)
  ultimately show ?thesis
    using sum [of xs] by simp
qed

section \<open>The collapse passes\<close>

lemma findIndex_before: "findIndex p xs = Some i \<Longrightarrow> j < i \<Longrightarrow> \<not> p (xs ! j)"
proof (induction xs arbitrary: i j)
  case Nil
  then show ?case by simp
next
  case (Cons x xs)
  then show ?case
    by (cases j) (auto split: if_splits)
qed

lemma findIndex_None_all: "findIndex p xs = None \<Longrightarrow> list_all (\<lambda>x. \<not> p x) xs"
  by (induction xs) (auto split: if_splits)

lemma findIndex_append:
  "list_all (\<lambda>x. \<not> p x) pre \<Longrightarrow> p x \<Longrightarrow> findIndex p (pre @ x # post) = Some (length pre)"
  by (induction pre) auto

lemma findIndex_window:
  "list_all (\<lambda>x. \<not> p x) pre \<Longrightarrow> \<not> p a \<Longrightarrow> p x \<Longrightarrow>
   findIndex p (pre @ a # x # post) = Some (Suc (length pre))"
  using findIndex_append [of p "pre @ [a]" x post] by simp

lemma splice3_window: "splice3 (pre @ a # x # b # post) (length pre) v = pre @ v # post"
  by (simp add: splice3_def)

lemma list_all_splice3: "list_all P xs \<Longrightarrow> P x \<Longrightarrow> list_all P (splice3 xs k x)"
  by (auto simp: splice3_def list_all_iff dest: in_set_takeD in_set_dropD)

lemma mulDivLoop_step:
  assumes "list_all (\<lambda>t. \<not> isMulDiv t) pre" and "op = OpMul \<or> op = OpDiv"
    and "Suc (length pre) < length cells"
  shows "mulDivLoop cells (pre @ Value l # Operator op # Value r # post) =
     (if isNaN (if op = OpMul then js_mul l r else js_div l r)
      then Inl (ArithmeticError (JNum l) (tokval (cells ! Suc (length pre))) (JNum r))
      else mulDivLoop cells (pre @ Value (if op = OpMul then js_mul l r else js_div l r) # post))"
proof -
  have idx: "findIndex isMulDiv (pre @ Value l # Operator op # Value r # post) = Some (Suc (length pre))"
    using assms(1,2) by (intro findIndex_window) (auto simp: isMulDiv_def)
  have nth: "(pre @ Value l # Operator op # Value r # post) ! length pre = Value l"
    "(pre @ Value l # Operator op # Value r # post) ! Suc (length pre) = Operator op"
    "(pre @ Value l # Operator op # Value r # post) ! Suc (Suc (length pre)) = Value r"
    by (simp_all add: nth_append)
  show ?thesis
    by (subst mulDivLoop.simps)
      (use assms(3) in \<open>simp add: idx nth cantEvaluate_def splice3_window del: append.simps\<close>)
qed

lemma addSubLoop_step:
  assumes "list_all (\<lambda>t. \<not> isAddSub t) pre" and "op = OpAdd \<or> op = OpSub"
    and "Suc (length pre) < length cells"
  shows "addSubLoop cells (pre @ Value l # Operator op # Value r # post) =
     (if isNaN (if op = OpAdd then js_add l r else js_sub l r)
      then Inl (ArithmeticError (JNum l) (tokval (cells ! Suc (length pre))) (JNum r))
      else addSubLoop cells (pre @ Value (if op = OpAdd then js_add l r else js_sub l r) # post))"
proof -
  have idx: "findIndex isAddSub (pre @ Value l # Operator op # Value r # post) = Some (Suc (length pre))"
    using assms(1,2) by (intro findIndex_window) (auto simp: isAddSub_def)
  have nth: "(pre @ Value l # Operator op # Value r # post) ! length pre = Value l"
    "(pre @ Value l # Operator op # Value r # post) ! Suc (length pre) = Operator op"
    "(pre @ Value l # Operator op # Value r # post) ! Suc (Suc (length pre)) = Value r"
    by (simp_all add: nth_append)
  show ?thesis
    by (subst addSubLoop.simps)
      (use assms(3) in \<open>simp add: idx nth cantEvaluate_def splice3_window del: append.simps\<close>)
qed

lemma mulDivLoop_single: "mulDivLoop cells [Value v] = Inr [Value v]"
  by (rule mulDivLoop_no_op) (simp add: isMulDiv_def)

lemma addSubLoop_single: "addSubLoop cells [Value v] = Inr [Value v]"
  by (rule addSubLoop_no_op) (simp add: isAddSub_def)

lemma calcMath_single_op:
  "calcMath [Value l, Operator op, Value r] =
     (let v = (case op of OpAdd \<Rightarrow> js_add l r | OpSub \<Rightarrow> js_sub l r
                        | OpMul \<Rightarrow> js_mul l r | OpDiv \<Rightarrow> js_div l r)
      in if isNaN v then Inl (ArithmeticError (JNum l) (JStr (opString op)) (JNum r))
         else Inr (js_add (Num 0) v))"
proof (cases "op = OpMul \<or> op = OpDiv")
  case True
  then show ?thesis
    using mulDivLoop_step [of "[]" op "[Value l, Operator op, Value r]" l r "[]"]
    by (auto simp: calcMath_def mulDivLoop_single addSubLoop_single Let_def)
next
  case False
  then have op: "op = OpAdd \<or> op = OpSub"
    by (cases op) auto
  have "mulDivLoop [Value l, Operator op, Value r] [Value l, Operator op, Value r]
      = Inr [Value l, Operator op, Value r]"
    using False by (intro mulDivLoop_no_op) (simp add: isMulDiv_def)
  then show ?thesis
    using op addSubLoop_step [of "[]" op "[Value l, Operator op, Value r]" l r "[]"]
    by (auto simp: calcMath_def addSubLoop_single Let_def)
qed

text \<open>
  C4, as the claim states it, fails: \<^verbatim>\<open>1 / 0\<close> is \<^verbatim>\<open>Infinity\<close>, which is not finite and
  for which \<^verbatim>\<open>isNaN\<close> is false, so the reducer returns \<^verbatim>\<open>Infinity\<close> for the tokens of
  \<^verbatim>\<open>=1/0\<close> and raises nothing.
\<close>

theorem division_by_zero_returns_infinity:
  "parseMathExp ''=1/0'' = Inr [Value (Num 1), Operator OpDiv, Value (Num 0)]
   \<and> js_div (Num 1) (Num 0) = PosInf
   \<and> \<not> isFinite (js_div (Num 1) (Num 0))
   \<and> calcMath [Value (Num 1), Operator OpDiv, Value (Num 0)] = Inr PosInf"
  by (simp add: parseMathExp_def char_simps parseFloat_1 parseFloat_0 calc_simps arith_simps
      isFinite_def)

text \<open>
  C4, amended.  A collapse of \<open>left OP right\<close> between two Value tokens fails, with the
  ArithmeticError that names \<open>left\<close> and \<open>right\<close>, exactly when its result is NaN;
  every other result, the infinities included, replaces the three tokens and the pass
  goes on.  This holds for the leftmost \<^verbatim>\<open>*\<close> or \<^verbatim>\<open>/\<close> in the first pass, for the
  leftmost \<^verbatim>\<open>+\<close> or \<^verbatim>\<open>-\<close> in the second (the working copy is a collapsed copy of
  \<open>cells\<close>, so the operator's index is an index of \<open>cells\<close>), and so for the reducer on
  one operator between two values.
\<close>

theorem collapse_fails_iff_NaN:
  "(list_all (\<lambda>t. \<not> isMulDiv t) pre \<and> (op = OpMul \<or> op = OpDiv) \<and> Suc (length pre) < length cells
      \<longrightarrow> mulDivLoop cells (pre @ Value l # Operator op # Value r # post) =
           (if isNaN (if op = OpMul then js_mul l r else js_div l r)
            then Inl (ArithmeticError (JNum l) (tokval (cells ! Suc (length pre))) (JNum r))
            else mulDivLoop cells
                   (pre @ Value (if op = OpMul then js_mul l r else js_div l r) # post)))
   \<and> (list_all (\<lambda>t. \<not> isAddSub t) pre' \<and> (op' = OpAdd \<or> op' = OpSub)
        \<and> Suc (length pre') < length cells'
      \<longrightarrow> addSubLoop cells' (pre' @ Value l' # Operator op' # Value r' # post') =
           (if isNaN (if op' = OpAdd then js_add l' r' else js_sub l' r')
            then Inl (ArithmeticError (JNum l') (tokval (cells' ! Suc (length pre'))) (JNum r'))
            else addSubLoop cells'
                   (pre' @ Value (if op' = OpAdd then js_add l' r' else js_sub l' r') # post')))
   \<and> calcMath [Value x, Operator opr, Value y] =
        (let v = (case opr of OpAdd \<Rightarrow> js_add x y | OpSub \<Rightarrow> js_sub x y
                          | OpMul \<Rightarrow> js_mul x y | OpDiv \<Rightarrow> js_div x y)
         in if isNaN v then Inl (ArithmeticError (JNum x) (JStr (opString opr)) (JNum y))
            else Inr (js_add (Num 0) v))"
  using mulDivLoop_step [of pre op cells l r post] addSubLoop_step [of pre' op' cells' l' r' post']
    calcMath_single_op [of x opr y]
  by blast

theorem collapse_fails_iff_NaN_witness:
  "mulDivLoop [Value (Num 0), Operator OpDiv, Value (Num 0)]
     [Value (Num 0), Operator OpDiv, Value (Num 0)]
     = Inl (ArithmeticError (JNum (Num 0)) (JStr ''/'') (JNum (Num 0)))
   \<and> addSubLoop [Value PosInf, Operator OpSub, Value PosInf]
       [Value PosInf, Operator OpSub, Value PosInf]
     = Inl (ArithmeticError (JNum PosInf) (JStr ''-'') (JNum PosInf))
   \<and> calcMath [Value (Num 0), Operator OpDiv, Value (Num 0)]
     = Inl (ArithmeticError (JNum (Num 0)) (JStr ''/'') (JNum (Num 0)))
   \<and> calcMath [Value (Num 1), Operator OpDiv, Value NegZero] = Inr NegInf"
  using collapse_fails_iff_NaN [of "[]" OpDiv "[Value (Num 0), Operator OpDiv, Value (Num 0)]"
      "Num 0" "Num 0" "[]" "[]" OpSub "[Value PosInf, Operator OpSub, Value PosInf]"
      PosInf PosInf "[]" "Num 0" OpDiv "Num 0"]
    collapse_fails_iff_NaN [of "[]" OpDiv "[Value (Num 0), Operator OpDiv, Value (Num 0)]"
      "Num 0" "Num 0" "[]" "[]" OpSub "[Value PosInf, Operator OpSub, Value PosInf]"
      PosInf PosInf "[]" "Num 1" OpDiv NegZero]
  by (simp add: arith_simps opString_def)

section \<open>The final fold of the reducer\<close>

lemma mulDivLoop_result:
  "mulDivLoop cells p = Inr p' \<Longrightarrow> list_all P p \<Longrightarrow> (\<And>v. P (Value v)) \<Longrightarrow>
   list_all (\<lambda>t. \<not> isMulDiv t) p' \<and> list_all P p'"
proof (induction cells p rule: mulDivLoop.induct)
  case (1 cells prepared)
  show ?case
  proof (cases "findIndex isMulDiv prepared")
    case None
    with "1.prems" show ?thesis
      by (subst (asm) mulDivLoop.simps) (auto dest: findIndex_None_all)
  next
    case (Some i)
    with "1.prems"(1) obtain v where
      i: "\<not> (i = 0 \<or> length prepared \<le> i + 1)" and
      ap: "applyOp (if prepared ! i = Operator OpMul then js_mul else js_div)
             (prepared ! (i - 1)) (prepared ! (i + 1)) = Inr v" and
      nn: "\<not> isNaN v" and
      rec: "mulDivLoop cells (splice3 prepared (i - 1) (Value v)) = Inr p'"
      by (subst (asm) mulDivLoop.simps) (auto split: if_splits sum.splits)
    show ?thesis
      using "1.IH" [OF Some i ap nn rec] "1.prems"(2,3) by (simp add: list_all_splice3)
  qed
qed

lemma addSubLoop_result:
  "addSubLoop cells p = Inr p' \<Longrightarrow> list_all P p \<Longrightarrow> (\<And>v. P (Value v)) \<Longrightarrow>
   list_all (\<lambda>t. \<not> isAddSub t) p' \<and> list_all P p'"
proof (induction cells p rule: addSubLoop.induct)
  case (1 cells prepared)
  show ?case
  proof (cases "findIndex isAddSub prepared")
    case None
    with "1.prems" show ?thesis
      by (subst (asm) addSubLoop.simps) (auto dest: findIndex_None_all)
  next
    case (Some i)
    with "1.prems"(1) obtain v where
      i: "\<not> (i = 0 \<or> length prepared \<le> i + 1)" and
      ap: "applyOp (if prepared ! i = Operator OpAdd then js_add else js_sub)
             (prepared ! (i - 1)) (prepared ! (i + 1)) = Inr v" and
      nn: "\<not> isNaN v" and
      rec: "addSubLoop cells (splice3 prepared (i - 1) (Value v)) = Inr p'"
      by (subst (asm) addSubLoop.simps) (auto split: if_splits sum.splits)
    show ?thesis
      using "1.IH" [OF Some i ap nn rec] "1.prems"(2,3) by (simp add: list_all_splice3)
  qed
qed

lemma sumValues_all_values:
  "list_all (\<lambda>t. \<not> isMulDiv t \<and> \<not> isAddSub t \<and> \<not> isRef t) ts \<Longrightarrow> \<exists>x. sumValues acc ts = Inr x"
proof (induction ts arbitrary: acc)
  case Nil
  then show ?case by simp
next
  case (Cons t ts)
  then show ?case
  proof (cases t)
    case (Operator op)
    with Cons.prems show ?thesis
      by (cases op) (auto simp: isMulDiv_def isAddSub_def)
  qed auto
qed

lemma applyOp_error: "applyOp f a b = Inl e \<Longrightarrow> collapseError e"
  by (cases "(f, a, b)" rule: applyOp.cases) auto

lemma mulDivLoop_error: "mulDivLoop cells p = Inl e \<Longrightarrow> collapseError e"
proof (induction cells p rule: mulDivLoop.induct)
  case (1 cells prepared)
  from "1.prems" show ?case
    by (subst (asm) mulDivLoop.simps)
      (auto simp: cantEvaluate_def split: option.splits sum.splits if_splits
        dest: applyOp_error "1.IH")
qed

lemma addSubLoop_error: "addSubLoop cells p = Inl e \<Longrightarrow> collapseError e"
proof (induction cells p rule: addSubLoop.induct)
  case (1 cells prepared)
  from "1.prems" show ?case
    by (subst (asm) addSubLoop.simps)
      (auto simp: cantEvaluate_def split: option.splits sum.splits if_splits
        dest: applyOp_error "1.IH")
qed

lemma sumValues_error: "sumValues acc ts = Inl e \<Longrightarrow> \<exists>v. e = InvalidToken v"
  by (induction acc ts rule: sumValues.induct) auto

lemma calcMath_error: "calcMath ts = Inl e \<Longrightarrow> collapseError e \<or> (\<exists>v. e = InvalidToken v)"
  by (auto simp: calcMath_def split: sum.splits
      dest: mulDivLoop_error addSubLoop_error sumValues_error)

lemma calcMath_not_cyclic: "calcMath ts \<noteq> Inl (CyclicReference ids)"
  using calcMath_error [of ts "CyclicReference ids"] by auto

text \<open>
  On a sequence of Operator and Value tokens the final fold never throws: the two
  passes end only when no operator is left, so whatever reaches the fold is a
  sequence of values.
\<close>

lemma calcMath_fold_never_throws:
  assumes "list_all (\<lambda>t. \<not> isRef t) ts"
  shows "calcMath ts \<noteq> Inl (InvalidToken v)"
proof (cases "mulDivLoop ts ts")
  case (Inl e)
  then show ?thesis
    using mulDivLoop_error [of ts ts "InvalidToken v"] by (auto simp: calcMath_def)
next
  case (Inr p1)
  note p1 = mulDivLoop_result [OF Inr assms]
  show ?thesis
  proof (cases "addSubLoop ts p1")
    case (Inl e)
    then show ?thesis
      using Inr addSubLoop_error [of ts p1 "InvalidToken v"] by (auto simp: calcMath_def)
  next
    case p2: (Inr p2)
    have "list_all (\<lambda>t. \<not> isMulDiv t \<and> \<not> isRef t) p1"
      using p1 by (simp add: list_all_iff)
    from addSubLoop_result [OF p2 this]
    have "list_all (\<lambda>t. \<not> isMulDiv t \<and> \<not> isAddSub t \<and> \<not> isRef t) p2"
      by (auto simp: isMulDiv_def list_all_iff)
    from sumValues_all_values [OF this, of "Num 0"] show ?thesis
      using Inr p2 by (auto simp: calcMath_def)
  qed
qed

text \<open>
  C5.  The claim fails on its own examples.  For the tokens of \<^verbatim>\<open>=1+\<close> and of
  \<^verbatim>\<open>=+1\<close> the second pass reads \<^verbatim>\<open>.value\<close> of a neighbour that does not exist, and
  the reducer ends with the runtime's TypeError before the final fold is reached; for
  the doubled operator of \<^verbatim>\<open>=1++2\<close> the second pass computes \<^verbatim>\<open>1 + "+"\<close>, for which
  \<^verbatim>\<open>isNaN\<close> is true, and throws the error of a failed arithmetic step.
\<close>

theorem dangling_operator_not_reported_by_fold:
  "parseMathExp ''=1+'' = Inr [Value (Num 1), Operator OpAdd]
   \<and> calcMath [Value (Num 1), Operator OpAdd] = Inl TypeError
   \<and> parseMathExp ''=+1'' = Inr [Operator OpAdd, Value (Num 1)]
   \<and> calcMath [Operator OpAdd, Value (Num 1)] = Inl TypeError
   \<and> parseMathExp ''=1++2'' = Inr [Value (Num 1), Operator OpAdd, Operator OpAdd, Value (Num 2)]
   \<and> calcMath [Value (Num 1), Operator OpAdd, Operator OpAdd, Value (Num 2)]
       = Inl (ArithmeticError (JNum (Num 1)) (JStr ''+'') (JStr ''+''))"
  by (simp add: parseMathExp_def char_simps parseFloat_1 parseFloat_2 calc_simps isNaN_def)

section \<open>The classifier on numeric prefixes\<close>

lemma tokenize_not_InvalidCellValue: "tokenize cs ts \<noteq> Inl (InvalidCellValue s)"
  by (induction cs ts rule: tokenize.induct) (auto split: prod.splits)

lemma parseCell_InvalidCellValue_iff:
  "parseCell src = Inl (InvalidCellValue t) \<longleftrightarrow>
     t = src \<and> \<not> ALPHA_REGEX src \<and> take 1 src \<noteq> ''='' \<and> isNaN (parseFloat src)"
  using tokenize_not_InvalidCellValue [of "drop 1 src" "[]" t]
  by (auto simp: parseCell_def parseMathExp_def split: sum.splits)

lemma digit_not_space: "is_digit c \<Longrightarrow> \<not> is_space c"
  by (auto simp: is_digit_def is_space_def)

lemma digit_not_alpha: "is_digit c \<Longrightarrow> \<not> is_alpha c"
  by (auto simp: is_digit_def is_alpha_def)

lemma digit_not_sign: "is_digit d \<Longrightarrow> d \<noteq> CHR ''-'' \<and> d \<noteq> CHR ''+'' \<and> d \<noteq> CHR ''I''"
  by (auto simp: is_digit_def)

text \<open>
  What follows a run of digits does not change the result of \<^verbatim>\<open>parseFloat\<close>, unless it
  goes on as a number (a digit, a point or an exponent).
\<close>

lemma parseFloat_digits_prefix:
  assumes "ds \<noteq> []" "list_all is_digit ds"
    "rest = [] \<or> \<not> is_digit (hd rest) \<and> hd rest \<notin> set ''.eE''"
  shows "parseFloat (ds @ rest) =
     (if digits_val ds = 0 then Num 0 else round_double (of_int (digits_val ds)))"
proof -
  obtain d ds' where ds: "ds = d # ds'" "is_digit d" "list_all is_digit ds'"
    using assms by (cases ds) auto
  have tw: "takeWhile is_digit (ds' @ rest) = ds'" "dropWhile is_digit (ds' @ rest) = rest"
    using ds(3) assms(3) by (cases rest; simp add: list_all_iff)+
  have r: "take (Suc 0) rest \<noteq> ''.''" "exponent_part rest = 0"
    using assms(3) by (cases rest; auto simp: exponent_part_def)+
  show ?thesis
    using digit_not_sign [OF ds(2)] ds(2)
    by (simp add: parseFloat_def ds(1) digit_not_space unsigned_part_def tw r Let_def signed_zero_def)
qed

lemma parseFloat_12: "parseFloat ''12'' = Num 12"
  by (simp add: parseFloat_simps char_simps round_simps)

text \<open>
  C10.  A raw cell string that is neither an identifier nor a formula and whose
  \<^verbatim>\<open>parseFloat\<close> is not NaN classifies as a Value that carries that number, whatever
  follows the numeric prefix: \<^verbatim>\<open>12abc\<close> is Value 12, and after a run of digits the rest
  of the string is ignored.  \<open>InvalidCellValue\<close> is the result exactly when the string is
  neither an identifier nor a formula and \<^verbatim>\<open>parseFloat\<close> gives NaN.
\<close>

theorem parseCell_numeric_prefix:
  "parseCell ''12abc'' = Inr (ValueCell (Num 12) ''12abc'')
   \<and> (\<not> ALPHA_REGEX src \<and> take 1 src \<noteq> ''='' \<and> \<not> isNaN (parseFloat src)
        \<longrightarrow> parseCell src = Inr (ValueCell (parseFloat src) src))
   \<and> (parseCell src' = Inl (InvalidCellValue t)
        \<longleftrightarrow> t = src' \<and> \<not> ALPHA_REGEX src' \<and> take 1 src' \<noteq> ''='' \<and> isNaN (parseFloat src'))
   \<and> (ds \<noteq> [] \<and> list_all is_digit ds \<and> (rest = [] \<or> \<not> is_digit (hd rest) \<and> hd rest \<notin> set ''.eE'')
        \<longrightarrow> parseFloat (ds @ rest) = parseFloat ds
          \<and> parseCell (ds @ rest) = Inr (ValueCell (parseFloat ds) (ds @ rest)))"
proof -
  have as_value: "parseCell s = Inr (ValueCell (parseFloat s) s)"
    if "\<not> ALPHA_REGEX s" "take 1 s \<noteq> ''=''" "\<not> isNaN (parseFloat s)" for s
    using that by (simp add: parseCell_def)
  have prefix: "parseFloat (ds @ rest) = parseFloat ds
      \<and> parseCell (ds @ rest) = Inr (ValueCell (parseFloat ds) (ds @ rest))"
    if ds: "ds \<noteq> []" "list_all is_digit ds"
      and rest: "rest = [] \<or> \<not> is_digit (hd rest) \<and> hd rest \<notin> set ''.eE''"
    for ds rest
  proof -
    have eq: "parseFloat (ds @ rest) = parseFloat ds"
      using parseFloat_digits_prefix [OF ds rest] parseFloat_digits_prefix [OF ds, of "[]"] by simp
    have "\<not> isNaN (parseFloat (ds @ rest))"
      using parseFloat_digits_prefix [OF ds rest]
      by (simp add: round_double_not_NaN) (simp add: isNaN_def)
    moreover have "\<not> ALPHA_REGEX (ds @ rest)" "take 1 (ds @ rest) \<noteq> ''=''"
      using ds by (cases ds; auto simp: ALPHA_REGEX_def digit_not_alpha is_digit_def)+
    ultimately show ?thesis
      using as_value [of "ds @ rest"] eq by simp
  qed
  have "parseFloat ''12abc'' = Num 12"
    using prefix [of "''12''" "''abc''"] by (simp add: is_digit_def parseFloat_12)
  then have "parseCell ''12abc'' = Inr (ValueCell (Num 12) ''12abc'')"
    by (simp add: parseCell_def ALPHA_REGEX_def is_alpha_def isNaN_def)
  then show ?thesis
    using as_value [of src] prefix parseCell_InvalidCellValue_iff [of src' t] by blast
qed

theorem parseCell_numeric_prefix_witness:
  "parseCell ''3.5e2x'' = Inr (ValueCell (Num 350) ''3.5e2x'')
   \<and> parseCell ''?'' = Inl (InvalidCellValue ''?'')
   \<and> parseFloat ''10 apples'' = Num 10
   \<and> parseCell ''10 apples'' = Inr (ValueCell (Num 10) ''10 apples'')"
proof -
  have 1: "parseFloat ''3.5e2x'' = Num 350"
    by (simp add: parseFloat_simps char_simps round_simps)
  have 2: "parseFloat ''?'' = NaN"
    by (simp add: parseFloat_simps char_simps)
  show ?thesis
    using parseCell_numeric_prefix [of "''3.5e2x''" "''?''" "''?''" "''10''" "'' apples''"]
    by (simp add: 1 2 isNaN_def ALPHA_REGEX_def is_alpha_def is_digit_def parseFloat_10)
qed

section \<open>The grid parser on blank input and on the example grids\<close>

lemma splitCells_blank:
  assumes "list_all (\<lambda>line. list_all (\<lambda>field. trim field = []) (split CHR '','' line))
             (split CHR 0x0A src)"
  shows "splitCells src = []"
proof -
  have "filter (\<lambda>field. trim field \<noteq> []) (split CHR '','' line) = []"
    if "line \<in> set (split CHR 0x0A src)" for line
    using assms that by (auto simp: list_all_iff filter_empty_conv)
  then have "filter (\<lambda>c. c \<noteq> [])
      (map (\<lambda>line. filter (\<lambda>field. trim field \<noteq> []) (split CHR '','' line))
         (split CHR 0x0A src)) = []"
    by (auto simp: filter_empty_conv)
  then show ?thesis
    by (simp add: splitCells_def)
qed

text \<open>
  C7.  When every field of every line of the source is empty or white space, and so
  for the empty string, \<open>parseCells\<close> returns the pair of no cells and no header; it
  raises no error.
\<close>

theorem parseCells_blank:
  "(list_all (\<lambda>line. list_all (\<lambda>field. trim field = []) (split CHR '','' line))
       (split CHR 0x0A src)
      \<longrightarrow> parseCells src = Inr ([], []))
   \<and> parseCells '''' = Inr ([], [])"
proof -
  have "parseCells '''' = Inr ([], [])"
    by (simp add: parseCells_def splitCells_def split_def trim_def)
  then show ?thesis
    by (auto simp: parseCells_def splitCells_blank)
qed

theorem parseCells_blank_witness:
  "parseCells ('' ,  '' @ [CHR 0x0A, CHR 0x0A, CHR 0x0D, CHR 0x0A] @ '',,'') = Inr ([], [])"
  using parseCells_blank [of "'' ,  '' @ [CHR 0x0A, CHR 0x0A, CHR 0x0D, CHR 0x0A] @ '',,''"]
  by (simp add: split_def trim_def is_space_def)

lemmas grid_simps =
  parseCells_def splitCells_def split_def parseCell_def parseMathExp_def char_simps isNaN_def
  string_of_nat.simps cyclicTrace_def

text \<open>
  C6.  The grid with the header \<^verbatim>\<open>A,B\<close> and the data row \<^verbatim>\<open>1,=A1+1\<close> parses into the
  cells \<^verbatim>\<open>A1\<close> (the value 1) and \<^verbatim>\<open>B1\<close> (the formula), named by the header name and
  the row number 1; the identifier \<^verbatim>\<open>A1\<close> finds the first data cell under \<^verbatim>\<open>A\<close>; and
  evaluating \<^verbatim>\<open>B1\<close> from an empty trace returns 2, at every depth of at least 2.
\<close>

theorem grid_example_B1_is_2:
  "parseCells (''A,B'' @ [CHR 0x0A] @ ''1,=A1+1'')
     = Inr ([\<lparr>content = ValueCell (Num 1) ''1'', identifier = ''A1'', oid = 0\<rparr>,
             \<lparr>content = ExpressionCell [Ref ''A1'', Operator OpAdd, Value (Num 1)] ''=A1+1'',
              identifier = ''B1'', oid = 1\<rparr>],
            [IdentifierCell ''A'' ''A'', IdentifierCell ''B'' ''B''])
   \<and> find (\<lambda>c. identifier c = ''A1'')
         [\<lparr>content = ValueCell (Num 1) ''1'', identifier = ''A1'', oid = 0\<rparr>,
          \<lparr>content = ExpressionCell [Ref ''A1'', Operator OpAdd, Value (Num 1)] ''=A1+1'',
           identifier = ''B1'', oid = 1\<rparr>]
       = Some \<lparr>content = ValueCell (Num 1) ''1'', identifier = ''A1'', oid = 0\<rparr>
   \<and> evalCell (Suc (Suc depth)) []
         \<lparr>content = ExpressionCell [Ref ''A1'', Operator OpAdd, Value (Num 1)] ''=A1+1'',
          identifier = ''B1'', oid = 1\<rparr>
         [\<lparr>content = ValueCell (Num 1) ''1'', identifier = ''A1'', oid = 0\<rparr>,
          \<lparr>content = ExpressionCell [Ref ''A1'', Operator OpAdd, Value (Num 1)] ''=A1+1'',
           identifier = ''B1'', oid = 1\<rparr>]
       = Some (Inr (Num 2), [])"
proof -
  have "calcMath [Value (Num 1), Operator OpAdd, Value (Num 1)] = Inr (Num 2)"
    by (simp add: calc_simps arith_simps round_simps)
  then show ?thesis
    by (simp add: grid_simps parseFloat_1)
qed

section \<open>The evaluator and its trace\<close>

text \<open>
  A deeper bound never changes a result: \<open>None\<close> at a depth says that the calls nest
  deeper than that, and \<open>None\<close> at every depth that the recursion never ends.
\<close>

lemma depth_mono:
  "evalCell depth refTrace cell cells = Some r \<Longrightarrow> evalCell (Suc depth) refTrace cell cells = Some r"
  and "mapTokens depth refTrace cell cells toks = Some r'
     \<Longrightarrow> mapTokens (Suc depth) refTrace cell cells toks = Some r'"
proof (induction depth refTrace cell cells and depth refTrace cell cells toks
    arbitrary: r and r' rule: evalCell_mapTokens.induct)
  case (1 refTrace cell cells)
  then show ?case by simp
next
  case (2 depth refTrace cell cells)
  show ?case
  proof (cases "cyclicTrace refTrace")
    case True
    with "2.prems" show ?thesis by simp
  next
    case False
    show ?thesis
    proof (cases "content cell")
      case (ExpressionCell toks s)
      with False "2.prems" obtain x where x: "mapTokens depth refTrace cell cells toks = Some x"
        by (auto split: option.splits)
      from "2.IH" [OF False ExpressionCell x] x False ExpressionCell "2.prems"
      show ?thesis by simp
    qed (use False "2.prems" in auto)
  qed
next
  case (3 depth refTrace cell cells)
  then show ?case by simp
next
  case (4 depth refTrace cell cells token rest)
  show ?case
  proof (cases token)
    case (Ref name)
    define refTrace1 where "refTrace1 = (if refTrace = [] then [cell] else refTrace)"
    show ?thesis
    proof (cases "find (\<lambda>c. identifier c = name) cells")
      case None
      with Ref "4.prems" show ?thesis
        by simp
    next
      case (Some targetCell)
      with Ref "4.prems" obtain res refTrace2
        where res: "evalCell depth (refTrace1 @ [targetCell]) targetCell cells = Some (res, refTrace2)"
        by (auto simp: refTrace1_def split: option.splits)
      note res' = "4.IH"(3) [OF Ref refTrace1_def Some res]
      show ?thesis
      proof (cases res)
        case (Inl e)
        with Ref Some res res' "4.prems" show ?thesis
          by (simp add: refTrace1_def)
      next
        case (Inr v)
        with Ref Some res "4.prems" obtain y where y: "mapTokens depth [] cell cells rest = Some y"
          by (auto simp: refTrace1_def split: option.splits)
        have "mapTokens (Suc depth) [] cell cells rest = Some y"
          using "4.IH"(4) [OF Ref refTrace1_def Some] res Inr y by blast
        with Ref Some res res' Inr y "4.prems" show ?thesis
          by (simp add: refTrace1_def)
      qed
    qed
  next
    case (Operator op)
    with "4.prems" obtain y where y: "mapTokens depth refTrace cell cells rest = Some y"
      by (auto split: option.splits)
    from "4.IH"(1) [OF Operator y] Operator y "4.prems" show ?thesis
      by simp
  next
    case (Value x)
    with "4.prems" obtain y where y: "mapTokens depth refTrace cell cells rest = Some y"
      by (auto split: option.splits)
    from "4.IH"(2) [OF Value y] Value y "4.prems" show ?thesis
      by simp
  qed
qed

text \<open>
  \<open>CyclicReference\<close> is thrown by the check at the entry of \<open>evalCell\<close> only, and nothing
  touches \<^verbatim>\<open>refTrace\<close> while the exception leaves the nested calls: the trace that
  remains is the one the check refused.
\<close>

lemma cyclic_error_leaves_cyclic_trace:
  "evalCell depth refTrace cell cells = Some (Inl (CyclicReference ids), refTrace')
     \<Longrightarrow> cyclicTrace refTrace' \<and> ids = map identifier refTrace'"
  and "mapTokens depth refTrace cell cells toks = Some (Inl (CyclicReference ids), refTrace')
     \<Longrightarrow> cyclicTrace refTrace' \<and> ids = map identifier refTrace'"
proof (induction depth refTrace cell cells and depth refTrace cell cells toks
    arbitrary: ids refTrace' and ids refTrace' rule: evalCell_mapTokens.induct)
  case (1 refTrace cell cells)
  then show ?case by simp
next
  case (2 depth refTrace cell cells)
  show ?case
  proof (cases "cyclicTrace refTrace")
    case True
    with "2.prems" show ?thesis
      by auto
  next
    case False
    show ?thesis
    proof (cases "content cell")
      case (ExpressionCell toks s)
      with False "2.prems"
      have "mapTokens depth refTrace cell cells toks = Some (Inl (CyclicReference ids), refTrace')"
        by (auto simp: calcMath_not_cyclic split: option.splits sum.splits prod.splits)
      then show ?thesis
        by (rule "2.IH" [OF False ExpressionCell])
    qed (use False "2.prems" in auto)
  qed
next
  case (3 depth refTrace cell cells)
  then show ?case by simp
next
  case (4 depth refTrace cell cells token rest)
  show ?case
  proof (cases token)
    case (Ref name)
    define refTrace1 where "refTrace1 = (if refTrace = [] then [cell] else refTrace)"
    show ?thesis
    proof (cases "find (\<lambda>c. identifier c = name) cells")
      case None
      with Ref "4.prems" show ?thesis
        by simp
    next
      case (Some targetCell)
      show ?thesis
      proof (cases "evalCell depth (refTrace1 @ [targetCell]) targetCell cells")
        case None
        with Ref Some "4.prems" show ?thesis
          by (simp add: refTrace1_def)
      next
        case res: (Some res)
        obtain r refTrace2 where res': "res = (r, refTrace2)"
          by (cases res)
        show ?thesis
        proof (cases r)
          case (Inl e)
          with Ref Some res res' "4.prems"
          have "evalCell depth (refTrace1 @ [targetCell]) targetCell cells
              = Some (Inl (CyclicReference ids), refTrace')"
            by (simp add: refTrace1_def)
          then show ?thesis
            by (rule "4.IH"(3) [OF Ref refTrace1_def Some])
        next
          case (Inr v)
          with Ref Some res res' "4.prems"
          have "mapTokens depth [] cell cells rest = Some (Inl (CyclicReference ids), refTrace')"
            by (auto simp: refTrace1_def split: option.splits sum.splits prod.splits)
          then show ?thesis
            using "4.IH"(4) [OF Ref refTrace1_def Some] res res' Inr by blast
        qed
      qed
    qed
  next
    case (Operator op)
    with "4.prems"
    have "mapTokens depth refTrace cell cells rest = Some (Inl (CyclicReference ids), refTrace')"
      by (auto split: option.splits sum.splits prod.splits)
    then show ?thesis
      by (rule "4.IH"(1) [OF Operator])
  next
    case (Value x)
    with "4.prems"
    have "mapTokens depth refTrace cell cells rest = Some (Inl (CyclicReference ids), refTrace')"
      by (auto split: option.splits sum.splits prod.splits)
    then show ?thesis
      by (rule "4.IH"(2) [OF Value])
  qed
qed

lemma reference_to_trace_head:
  assumes "find (\<lambda>c. identifier c = name) cells = Some targetCell"
    and "oid (hd (if refTrace = [] then [cell] else refTrace)) = oid targetCell"
  shows "mapTokens (Suc depth) refTrace cell cells (Ref name # rest) =
     Some (Inl (CyclicReference
                 (map identifier ((if refTrace = [] then [cell] else refTrace) @ [targetCell]))),
           (if refTrace = [] then [cell] else refTrace) @ [targetCell])"
proof -
  have "cyclicTrace ((if refTrace = [] then [cell] else refTrace) @ [targetCell])"
    using assms(2) by (auto simp: cyclicTrace_def)
  then show ?thesis
    using assms(1) by (simp add: Let_def)
qed

text \<open>
  C3.  The grid with the header \<^verbatim>\<open>A\<close> and the data row \<^verbatim>\<open>=A1\<close> has the one cell \<^verbatim>\<open>A1\<close>,
  which refers to itself.  Evaluating it from an empty trace ends, at every depth of at
  least 2, with the \<open>CyclicReference\<close> error whose chain is \<^verbatim>\<open>A1 -> A1\<close>: the cell and
  then the target of its reference were appended to the trace.  In general a call of
  \<open>evalCell\<close> fails with \<open>CyclicReference\<close> and the identifiers of the whole trace as
  soon as the trace has more than one entry and its first and last entries are the
  same cell; and resolving a reference to the first cell of the trace appends the
  target and fails so.
\<close>

theorem self_reference_is_cyclic:
  "parseCells (''A'' @ [CHR 0x0A] @ ''=A1'')
     = Inr ([\<lparr>content = ExpressionCell [Ref ''A1''] ''=A1'', identifier = ''A1'', oid = 0\<rparr>],
            [IdentifierCell ''A'' ''A''])
   \<and> evalCell (Suc (Suc depth)) []
        \<lparr>content = ExpressionCell [Ref ''A1''] ''=A1'', identifier = ''A1'', oid = 0\<rparr>
        [\<lparr>content = ExpressionCell [Ref ''A1''] ''=A1'', identifier = ''A1'', oid = 0\<rparr>]
      = Some (Inl (CyclicReference [''A1'', ''A1'']),
          [\<lparr>content = ExpressionCell [Ref ''A1''] ''=A1'', identifier = ''A1'', oid = 0\<rparr>,
           \<lparr>content = ExpressionCell [Ref ''A1''] ''=A1'', identifier = ''A1'', oid = 0\<rparr>])
   \<and> (cyclicTrace refTrace
        \<longrightarrow> evalCell (Suc depth') refTrace cell cells
            = Some (Inl (CyclicReference (map identifier refTrace)), refTrace))
   \<and> (find (\<lambda>c. identifier c = name) cells' = Some targetCell
        \<and> oid (hd (if refTrace' = [] then [cell'] else refTrace')) = oid targetCell
        \<longrightarrow> mapTokens (Suc depth'') refTrace' cell' cells' (Ref name # rest)
            = Some (Inl (CyclicReference
                          (map identifier
                             ((if refTrace' = [] then [cell'] else refTrace') @ [targetCell]))),
                    (if refTrace' = [] then [cell'] else refTrace') @ [targetCell]))"
proof -
  have "parseCells (''A'' @ [CHR 0x0A] @ ''=A1'')
     = Inr ([\<lparr>content = ExpressionCell [Ref ''A1''] ''=A1'', identifier = ''A1'', oid = 0\<rparr>],
            [IdentifierCell ''A'' ''A''])"
    by (simp add: grid_simps)
  moreover have "evalCell (Suc (Suc depth)) []
        \<lparr>content = ExpressionCell [Ref ''A1''] ''=A1'', identifier = ''A1'', oid = 0\<rparr>
        [\<lparr>content = ExpressionCell [Ref ''A1''] ''=A1'', identifier = ''A1'', oid = 0\<rparr>]
      = Some (Inl (CyclicReference [''A1'', ''A1'']),
          [\<lparr>content = ExpressionCell [Ref ''A1''] ''=A1'', identifier = ''A1'', oid = 0\<rparr>,
           \<lparr>content = ExpressionCell [Ref ''A1''] ''=A1'', identifier = ''A1'', oid = 0\<rparr>])"
    by (simp add: cyclicTrace_def)
  moreover have "evalCell (Suc depth') refTrace cell cells
      = Some (Inl (CyclicReference (map identifier refTrace)), refTrace)"
    if "cyclicTrace refTrace"
    using that by simp
  ultimately show ?thesis
    using reference_to_trace_head [of name cells' targetCell refTrace' cell' depth'' rest]
    by blast
qed

theorem self_reference_is_cyclic_witness:
  "evalCell (Suc 0)
      [\<lparr>content = ExpressionCell [Ref ''A1''] ''=A1'', identifier = ''A1'', oid = 0\<rparr>,
       \<lparr>content = ValueCell (Num 1) ''1'', identifier = ''B1'', oid = 1\<rparr>,
       \<lparr>content = ExpressionCell [Ref ''A1''] ''=A1'', identifier = ''A1'', oid = 0\<rparr>]
      \<lparr>content = ValueCell (Num 1) ''1'', identifier = ''B1'', oid = 1\<rparr>
      []
     = Some (Inl (CyclicReference [''A1'', ''B1'', ''A1'']),
         [\<lparr>content = ExpressionCell [Ref ''A1''] ''=A1'', identifier = ''A1'', oid = 0\<rparr>,
          \<lparr>content = ValueCell (Num 1) ''1'', identifier = ''B1'', oid = 1\<rparr>,
          \<lparr>content = ExpressionCell [Ref ''A1''] ''=A1'', identifier = ''A1'', oid = 0\<rparr>])
   \<and> mapTokens (Suc 0) []
        \<lparr>content = ExpressionCell [Ref ''A1''] ''=A1'', identifier = ''A1'', oid = 0\<rparr>
        [\<lparr>content = ExpressionCell [Ref ''A1''] ''=A1'', identifier = ''A1'', oid = 0\<rparr>]
        [Ref ''A1'']
     = Some (Inl (CyclicReference [''A1'', ''A1'']),
         [\<lparr>content = ExpressionCell [Ref ''A1''] ''=A1'', identifier = ''A1'', oid = 0\<rparr>,
          \<lparr>content = ExpressionCell [Ref ''A1''] ''=A1'', identifier = ''A1'', oid = 0\<rparr>])"
  using self_reference_is_cyclic [of 0
      "[\<lparr>content = ExpressionCell [Ref ''A1''] ''=A1'', identifier = ''A1'', oid = 0\<rparr>,
        \<lparr>content = ValueCell (Num 1) ''1'', identifier = ''B1'', oid = 1\<rparr>,
        \<lparr>content = ExpressionCell [Ref ''A1''] ''=A1'', identifier = ''A1'', oid = 0\<rparr>]"
      0 "\<lparr>content = ValueCell (Num 1) ''1'', identifier = ''B1'', oid = 1\<rparr>" "[]"
      "''A1''" "[\<lparr>content = ExpressionCell [Ref ''A1''] ''=A1'', identifier = ''A1'', oid = 0\<rparr>]"
      "\<lparr>content = ExpressionCell [Ref ''A1''] ''=A1'', identifier = ''A1'', oid = 0\<rparr>"
      "[]" "\<lparr>content = ExpressionCell [Ref ''A1''] ''=A1'', identifier = ''A1'', oid = 0\<rparr>"
      0 "[]"]
  by (simp add: cyclicTrace_def)

text \<open>
  C8.  The result of \<open>evalCell\<close> depends on the trace that earlier calls left.  When
  a call ends with \<open>CyclicReference\<close>, the trace it leaves has more than one entry and
  equal first and last entries, so the next call, on any cell of any grid and at any
  depth, ends with \<open>CyclicReference\<close> at its first check.  The value cell of the grid
  \<^verbatim>\<open>A\<close>, \<^verbatim>\<open>7\<close> evaluates to 7 from the empty trace, and to \<open>CyclicReference\<close> from the
  trace that evaluating the self-referencing cell of C3 leaves.
\<close>

theorem cyclic_error_poisons_later_calls:
  "(evalCell depth refTrace cell cells = Some (Inl (CyclicReference ids), refTrace')
      \<longrightarrow> cyclicTrace refTrace'
        \<and> evalCell (Suc depth') refTrace' cell' cells'
            = Some (Inl (CyclicReference (map identifier refTrace')), refTrace'))
   \<and> parseCells (''A'' @ [CHR 0x0A] @ ''7'')
       = Inr ([\<lparr>content = ValueCell (Num 7) ''7'', identifier = ''A1'', oid = 0\<rparr>],
              [IdentifierCell ''A'' ''A''])
   \<and> evalCell (Suc 0) []
        \<lparr>content = ValueCell (Num 7) ''7'', identifier = ''A1'', oid = 0\<rparr>
        [\<lparr>content = ValueCell (Num 7) ''7'', identifier = ''A1'', oid = 0\<rparr>]
       = Some (Inr (Num 7), [])
   \<and> evalCell (Suc 0)
        [\<lparr>content = ExpressionCell [Ref ''A1''] ''=A1'', identifier = ''A1'', oid = 0\<rparr>,
         \<lparr>content = ExpressionCell [Ref ''A1''] ''=A1'', identifier = ''A1'', oid = 0\<rparr>]
        \<lparr>content = ValueCell (Num 7) ''7'', identifier = ''A1'', oid = 0\<rparr>
        [\<lparr>content = ValueCell (Num 7) ''7'', identifier = ''A1'', oid = 0\<rparr>]
       = Some (Inl (CyclicReference [''A1'', ''A1'']),
           [\<lparr>content = ExpressionCell [Ref ''A1''] ''=A1'', identifier = ''A1'', oid = 0\<rparr>,
            \<lparr>content = ExpressionCell [Ref ''A1''] ''=A1'', identifier = ''A1'', oid = 0\<rparr>])"
proof -
  have "parseFloat ''7'' = Num 7"
    by (simp add: parseFloat_simps char_simps round_simps)
  then have "parseCells (''A'' @ [CHR 0x0A] @ ''7'')
       = Inr ([\<lparr>content = ValueCell (Num 7) ''7'', identifier = ''A1'', oid = 0\<rparr>],
              [IdentifierCell ''A'' ''A''])"
    by (simp add: grid_simps)
  moreover have "cyclicTrace refTrace'
        \<and> evalCell (Suc depth') refTrace' cell' cells'
            = Some (Inl (CyclicReference (map identifier refTrace')), refTrace')"
    if "evalCell depth refTrace cell cells = Some (Inl (CyclicReference ids), refTrace')"
    using cyclic_error_leaves_cyclic_trace(1) [OF that] by simp
  ultimately show ?thesis
    by (simp add: cyclicTrace_def)
qed

theorem cyclic_error_poisons_later_calls_witness:
  "evalCell (Suc (Suc 0)) []
      \<lparr>content = ExpressionCell [Ref ''A1''] ''=A1'', identifier = ''A1'', oid = 0\<rparr>
      [\<lparr>content = ExpressionCell [Ref ''A1''] ''=A1'', identifier = ''A1'', oid = 0\<rparr>]
     = Some (Inl (CyclicReference [''A1'', ''A1'']),
         [\<lparr>content = ExpressionCell [Ref ''A1''] ''=A1'', identifier = ''A1'', oid = 0\<rparr>,
          \<lparr>content = ExpressionCell [Ref ''A1''] ''=A1'', identifier = ''A1'', oid = 0\<rparr>])
   \<and> evalCell (Suc 0)
        [\<lparr>content = ExpressionCell [Ref ''A1''] ''=A1'', identifier = ''A1'', oid = 0\<rparr>,
         \<lparr>content = ExpressionCell [Ref ''A1''] ''=A1'', identifier = ''A1'', oid = 0\<rparr>]
        \<lparr>content = ValueCell (Num 7) ''7'', identifier = ''A1'', oid = 0\<rparr>
        [\<lparr>content = ValueCell (Num 7) ''7'', identifier = ''A1'', oid = 0\<rparr>]
     = Some (Inl (CyclicReference [''A1'', ''A1'']),
         [\<lparr>content = ExpressionCell [Ref ''A1''] ''=A1'', identifier = ''A1'', oid = 0\<rparr>,
          \<lparr>content = ExpressionCell [Ref ''A1''] ''=A1'', identifier = ''A1'', oid = 0\<rparr>])
   \<and> evalCell (Suc 0) []
        \<lparr>content = ValueCell (Num 7) ''7'', identifier = ''A1'', oid = 0\<rparr>
        [\<lparr>content = ValueCell (Num 7) ''7'', identifier = ''A1'', oid = 0\<rparr>]
     = Some (Inr (Num 7), [])"
proof -
  have first: "evalCell (Suc (Suc 0)) []
      \<lparr>content = ExpressionCell [Ref ''A1''] ''=A1'', identifier = ''A1'', oid = 0\<rparr>
      [\<lparr>content = ExpressionCell [Ref ''A1''] ''=A1'', identifier = ''A1'', oid = 0\<rparr>]
     = Some (Inl (CyclicReference [''A1'', ''A1'']),
         [\<lparr>content = ExpressionCell [Ref ''A1''] ''=A1'', identifier = ''A1'', oid = 0\<rparr>,
          \<lparr>content = ExpressionCell [Ref ''A1''] ''=A1'', identifier = ''A1'', oid = 0\<rparr>])"
    by (simp add: cyclicTrace_def)
  show ?thesis
    using first
      cyclic_error_poisons_later_calls [of "Suc (Suc 0)" "[]"
        "\<lparr>content = ExpressionCell [Ref ''A1''] ''=A1'', identifier = ''A1'', oid = 0\<rparr>"
        "[\<lparr>content = ExpressionCell [Ref ''A1''] ''=A1'', identifier = ''A1'', oid = 0\<rparr>]"
        "[''A1'', ''A1'']"
        "[\<lparr>content = ExpressionCell [Ref ''A1''] ''=A1'', identifier = ''A1'', oid = 0\<rparr>,
          \<lparr>content = ExpressionCell [Ref ''A1''] ''=A1'', identifier = ''A1'', oid = 0\<rparr>]"
        0
        "\<lparr>content = ValueCell (Num 7) ''7'', identifier = ''A1'', oid = 0\<rparr>"
        "[\<lparr>content = ValueCell (Num 7) ''7'', identifier = ''A1'', oid = 0\<rparr>]"]
    by simp
qed

lemma off_root_cycle_inner:
  "refTrace \<noteq> [] \<Longrightarrow> oid (hd refTrace) = 0 \<Longrightarrow>
   evalCell depth
     (refTrace @ [\<lparr>content = ExpressionCell [Ref ''B1''] ''=B1'', identifier = ''B1'', oid = 1\<rparr>])
     \<lparr>content = ExpressionCell [Ref ''B1''] ''=B1'', identifier = ''B1'', oid = 1\<rparr>
     [\<lparr>content = ExpressionCell [Ref ''B1''] ''=B1'', identifier = ''A1'', oid = 0\<rparr>,
      \<lparr>content = ExpressionCell [Ref ''B1''] ''=B1'', identifier = ''B1'', oid = 1\<rparr>]
   = None"
proof (induction depth arbitrary: refTrace)
  case 0
  then show ?case by simp
next
  case (Suc depth)
  from Suc.prems
    Suc.IH [of "refTrace @ [\<lparr>content = ExpressionCell [Ref ''B1''] ''=B1'', identifier = ''B1'', oid = 1\<rparr>]"]
  show ?case by (simp add: cyclicTrace_def)
qed

text \<open>
  C1.  In the grid with the header \<^verbatim>\<open>A,B\<close> and the data row \<^verbatim>\<open>=B1,=B1\<close> the cell
  \<^verbatim>\<open>B1\<close> refers to itself and \<^verbatim>\<open>A1\<close> refers to \<^verbatim>\<open>B1\<close>.  Evaluating \<^verbatim>\<open>A1\<close> from the empty
  trace puts \<^verbatim>\<open>A1\<close> first in the trace, and every later entry is \<^verbatim>\<open>B1\<close>: the first and
  last entries never are the same cell, the check never fires, and the calls of
  \<open>evalCell\<close> nest without end.  No depth is enough, whereas the grid has two cells.
\<close>

theorem off_root_cycle_recursion_unbounded:
  "parseCells (''A,B'' @ [CHR 0x0A] @ ''=B1,=B1'')
     = Inr ([\<lparr>content = ExpressionCell [Ref ''B1''] ''=B1'', identifier = ''A1'', oid = 0\<rparr>,
             \<lparr>content = ExpressionCell [Ref ''B1''] ''=B1'', identifier = ''B1'', oid = 1\<rparr>],
            [IdentifierCell ''A'' ''A'', IdentifierCell ''B'' ''B''])
   \<and> (\<forall>depth. evalCell depth []
          \<lparr>content = ExpressionCell [Ref ''B1''] ''=B1'', identifier = ''A1'', oid = 0\<rparr>
          [\<lparr>content = ExpressionCell [Ref ''B1''] ''=B1'', identifier = ''A1'', oid = 0\<rparr>,
           \<lparr>content = ExpressionCell [Ref ''B1''] ''=B1'', identifier = ''B1'', oid = 1\<rparr>]
        = None)"
proof -
  have "evalCell depth []
          \<lparr>content = ExpressionCell [Ref ''B1''] ''=B1'', identifier = ''A1'', oid = 0\<rparr>
          [\<lparr>content = ExpressionCell [Ref ''B1''] ''=B1'', identifier = ''A1'', oid = 0\<rparr>,
           \<lparr>content = ExpressionCell [Ref ''B1''] ''=B1'', identifier = ''B1'', oid = 1\<rparr>]
        = None" for depth
  proof (cases depth)
    case 0
    then show ?thesis by simp
  next
    case (Suc d)
    then show ?thesis
      using off_root_cycle_inner
        [of "[\<lparr>content = ExpressionCell [Ref ''B1''] ''=B1'', identifier = ''A1'', oid = 0\<rparr>]" d]
      by (simp add: cyclicTrace_def)
  qed
  moreover have "parseCells (''A,B'' @ [CHR 0x0A] @ ''=B1,=B1'')
     = Inr ([\<lparr>content = ExpressionCell [Ref ''B1''] ''=B1'', identifier = ''A1'', oid = 0\<rparr>,
             \<lparr>content = ExpressionCell [Ref ''B1''] ''=B1'', identifier = ''B1'', oid = 1\<rparr>],
            [IdentifierCell ''A'' ''A'', IdentifierCell ''B'' ''B''])"
    by (simp add: grid_simps)
  ultimately show ?thesis
    by simp
qed

end
